theory Spec2Isabelle
  imports Main "HOL-Library.Word"
begin

section \<open>Strings, errors and numbers of the host language\<close>

text \<open>
  The data source is TypeScript. A string of the program is a sequence of UTF-16 code
  units, so a character is a 16-bit word and \<open>\s\<close> of a regular expression can be
  written out in full. \<open>js\<close> turns a literal of this theory into such a string.
\<close>

type_synonym jschar = "16 word"
type_synonym jsstring = "jschar list"

abbreviation js :: "string \<Rightarrow> jsstring" where
  "js s \<equiv> map of_char s"

text \<open>
  What the code can throw: the \<open>RangeError\<close> of the date formatter, the
  \<open>TypeError\<close> of a property read on \<open>undefined\<close>, the \<open>Error\<close> that
  \<open>metricFindQuery\<close> builds from a message, the \<open>EmptyError\<close> of
  \<open>lastValueFrom\<close>, and whatever the backend stream fails with.
\<close>

datatype error = RangeError | TypeError | Error jsstring | EmptyError | BackendFailure jsstring

text \<open>\<open>prepend out r\<close>: the text \<open>out\<close> followed by the rest \<open>r\<close> of a result, an exception
  of the rest staying what it is.\<close>

fun prepend :: "jsstring \<Rightarrow> error + jsstring \<Rightarrow> error + jsstring" where
  "prepend out (Inl e) = Inl e"
| "prepend out (Inr r) = Inr (out @ r)"

subsection \<open>\<open>Number.prototype.toString(radix)\<close> on integers\<close>

definition digit_char :: "nat \<Rightarrow> jschar" where
  "digit_char d = (if d < 10 then of_nat (48 + d) else of_nat (87 + d))"

function digits :: "nat \<Rightarrow> nat \<Rightarrow> jsstring" where
  "digits b n = (if n < b \<or> b < 2 then [digit_char n] else digits b (n div b) @ [digit_char (n mod b)])"
  by pat_completeness auto
termination
  by (relation "measure (\<lambda>(b, n). n)") auto

declare digits.simps [simp del]

definition toString :: "nat \<Rightarrow> int \<Rightarrow> jsstring" where
  "toString radix n = (if n < 0 then js ''-'' @ digits radix (nat (- n)) else digits radix (nat n))"

section \<open>Regular expressions with backtracking\<close>

text \<open>
  The matcher of the host language tries the alternatives of an expression in a fixed
  order and takes the first that lets the whole expression match. \<open>matches r (s, caps)\<close>
  lists, in that order, every way \<open>r\<close> can match at the start of \<open>s\<close>: the text left
  and the capture groups. A greedy quantifier lists the longest repetition first, an
  alternative its left branch first, an optional group the attempt to match before the
  skip. The quantifiers of the expression of this program all apply to a character class,
  which is what \<open>Star\<close> takes.
\<close>

type_synonym captures = "nat \<rightharpoonup> jsstring"

datatype regex =
    Eps
  | Chr jschar
  | Cls "jschar \<Rightarrow> bool"
  | Seq regex regex
  | Alt regex regex
  | Star "jschar \<Rightarrow> bool"
  | Opt regex
  | Grp nat regex

fun star_rests :: "(jschar \<Rightarrow> bool) \<Rightarrow> jsstring \<Rightarrow> jsstring list" where
  "star_rests p [] = [[]]"
| "star_rests p (x # xs) = (if p x then star_rests p xs @ [x # xs] else [x # xs])"

fun matches :: "regex \<Rightarrow> jsstring \<times> captures \<Rightarrow> (jsstring \<times> captures) list" where
  "matches Eps st = [st]"
| "matches (Chr c) (s, caps) = (case s of [] \<Rightarrow> [] | x # xs \<Rightarrow> if x = c then [(xs, caps)] else [])"
| "matches (Cls p) (s, caps) = (case s of [] \<Rightarrow> [] | x # xs \<Rightarrow> if p x then [(xs, caps)] else [])"
| "matches (Seq r1 r2) st = concat (map (matches r2) (matches r1 st))"
| "matches (Alt r1 r2) st = matches r1 st @ matches r2 st"
| "matches (Star p) (s, caps) = map (\<lambda>s'. (s', caps)) (star_rests p s)"
| "matches (Opt r) st = matches r st @ [st]"
| "matches (Grp n r) (s, caps) =
     map (\<lambda>(s', caps'). (s', caps'(n \<mapsto> take (length s - length s') s))) (matches r (s, caps))"

text \<open>A literal text is the sequence of its characters; \<open>x+\<close> is \<open>xx*\<close>.\<close>

fun lit :: "jsstring \<Rightarrow> regex" where
  "lit [] = Eps"
| "lit (c # cs) = Seq (Chr c) (lit cs)"

definition Plus :: "(jschar \<Rightarrow> bool) \<Rightarrow> regex" where
  "Plus p = Seq (Cls p) (Star p)"

record match_result =
  matched :: jsstring
  groups :: captures
  rest :: jsstring

definition exec :: "regex \<Rightarrow> jsstring \<Rightarrow> match_result option" where
  "exec r s = (case matches r (s, Map.empty) of
      [] \<Rightarrow> None
    | (s', caps) # _ \<Rightarrow> Some \<lparr>matched = take (length s - length s') s, groups = caps, rest = s'\<rparr>)"

text \<open>
  \<open>String.prototype.replace\<close> with a global expression and a replacer function: the
  text is scanned from the left; where the expression matches, the replacer's result
  stands for the matched text and the scan goes on behind the match; where it does not,
  the character is copied. An exception of the replacer ends the call. An empty match
  (none of this program's expression) moves the scan on by one character.
\<close>

function replace_global ::
  "regex \<Rightarrow> (match_result \<Rightarrow> error + jsstring) \<Rightarrow> jsstring \<Rightarrow> error + jsstring" where
  "replace_global r f s =
     (case exec r s of
        None \<Rightarrow> (case s of [] \<Rightarrow> Inr [] | c # cs \<Rightarrow> prepend [c] (replace_global r f cs))
      | Some m \<Rightarrow>
          (case f m of
             Inl e \<Rightarrow> Inl e
           | Inr out \<Rightarrow>
               if length (rest m) < length s then prepend out (replace_global r f (rest m))
               else (case s of [] \<Rightarrow> Inr out | c # cs \<Rightarrow> prepend (out @ [c]) (replace_global r f cs))))"
  by pat_completeness auto
termination
  by (relation "measure (\<lambda>(r, f, s). length s)") auto

declare replace_global.simps [simp del]

declare lit.simps [simp del]

section \<open>The built-in date arithmetic\<close>

text \<open>
  An instant is the time value of a \<open>Date\<close>: the milliseconds since the epoch, an
  integer (\<open>Math.floor(v / 1000)\<close> is \<open>v div 1000\<close> on it, both round down). A
  \<open>Date\<close> holds no time value beyond 8.64e15 milliseconds on either side.
  \<open>toISOString\<close> is a built-in; it is written here from the definitions of the language
  standard (Day, DayFromYear, YearFromTime, MonthFromTime, DateFromTime, ...), with the
  year found by an estimate and one correction.
\<close>

definition valid_time :: "int \<Rightarrow> bool" where
  "valid_time t \<longleftrightarrow> - 8640000000000000 \<le> t \<and> t \<le> 8640000000000000"

definition msPerDay :: int where
  "msPerDay = 86400000"

definition Day :: "int \<Rightarrow> int" where
  "Day t = t div msPerDay"

definition TimeWithinDay :: "int \<Rightarrow> int" where
  "TimeWithinDay t = t mod msPerDay"

definition DaysInYear :: "int \<Rightarrow> int" where
  "DaysInYear y =
     (if y mod 4 \<noteq> 0 then 365 else if y mod 100 \<noteq> 0 then 366 else if y mod 400 \<noteq> 0 then 365 else 366)"

definition DayFromYear :: "int \<Rightarrow> int" where
  "DayFromYear y = 365 * (y - 1970) + (y - 1969) div 4 - (y - 1901) div 100 + (y - 1601) div 400"

definition YearFromDay :: "int \<Rightarrow> int" where
  "YearFromDay d =
     (let y = 1970 + (400 * d) div 146097
      in if d < DayFromYear y then y - 1 else if DayFromYear (y + 1) \<le> d then y + 1 else y)"

definition YearFromTime :: "int \<Rightarrow> int" where
  "YearFromTime t = YearFromDay (Day t)"

definition InLeapYear :: "int \<Rightarrow> int" where
  "InLeapYear t = (if DaysInYear (YearFromTime t) = 366 then 1 else 0)"

definition DayWithinYear :: "int \<Rightarrow> int" where
  "DayWithinYear t = Day t - DayFromYear (YearFromTime t)"

text \<open>The month (0 to 11) and the day of the month of a day of the year, \<open>l\<close> being 1 in a
  leap year.\<close>

definition month_of :: "int \<Rightarrow> int \<Rightarrow> int" where
  "month_of l d =
     (if d < 31 then 0 else if d < 59 + l then 1 else if d < 90 + l then 2
      else if d < 120 + l then 3 else if d < 151 + l then 4 else if d < 181 + l then 5
      else if d < 212 + l then 6 else if d < 243 + l then 7 else if d < 273 + l then 8
      else if d < 304 + l then 9 else if d < 334 + l then 10 else 11)"

definition month_start :: "int \<Rightarrow> int \<Rightarrow> int" where
  "month_start l m =
     (if m = 0 then 0 else if m = 1 then 31 else if m = 2 then 59 + l
      else if m = 3 then 90 + l else if m = 4 then 120 + l else if m = 5 then 151 + l
      else if m = 6 then 181 + l else if m = 7 then 212 + l else if m = 8 then 243 + l
      else if m = 9 then 273 + l else if m = 10 then 304 + l else 334 + l)"

definition MonthFromTime :: "int \<Rightarrow> int" where
  "MonthFromTime t = month_of (InLeapYear t) (DayWithinYear t)"

definition DateFromTime :: "int \<Rightarrow> int" where
  "DateFromTime t = DayWithinYear t - month_start (InLeapYear t) (MonthFromTime t) + 1"

definition HourFromTime :: "int \<Rightarrow> int" where
  "HourFromTime t = (t div 3600000) mod 24"

definition MinFromTime :: "int \<Rightarrow> int" where
  "MinFromTime t = (t div 60000) mod 60"

definition SecFromTime :: "int \<Rightarrow> int" where
  "SecFromTime t = (t div 1000) mod 60"

definition msFromTime :: "int \<Rightarrow> int" where
  "msFromTime t = t mod 1000"

text \<open>A number in decimal, filled with zeros on the left to \<open>w\<close> digits.\<close>

definition pad :: "nat \<Rightarrow> nat \<Rightarrow> jsstring" where
  "pad w n = replicate (w - length (digits 10 n)) (of_char CHR ''0'') @ digits 10 n"

definition year_string :: "int \<Rightarrow> jsstring" where
  "year_string y =
     (if 0 \<le> y \<and> y \<le> 9999 then pad 4 (nat y)
      else (if y < 0 then js ''-'' else js ''+'') @ pad 6 (nat \<bar>y\<bar>))"

definition toISOString :: "int \<Rightarrow> jsstring" where
  "toISOString t =
     year_string (YearFromTime t) @ js ''-'' @ pad 2 (nat (MonthFromTime t + 1)) @ js ''-''
       @ pad 2 (nat (DateFromTime t)) @ js ''T'' @ pad 2 (nat (HourFromTime t)) @ js '':''
       @ pad 2 (nat (MinFromTime t)) @ js '':'' @ pad 2 (nat (SecFromTime t)) @ js ''.''
       @ pad 3 (nat (msFromTime t)) @ js ''Z''"

section \<open>The time macros: \<open>replaceCustomFunctions\<close>\<close>

record TimeRange =
  "from" :: int
  to :: int

text \<open>\<open>\s\<close> of the host language: white space and line terminators.\<close>

definition is_space :: "jschar \<Rightarrow> bool" where
  "is_space c \<longleftrightarrow>
     c = 0x9 \<or> c = 0xA \<or> c = 0xB \<or> c = 0xC \<or> c = 0xD \<or> c = 0x20 \<or> c = 0xA0 \<or> c = 0x1680
     \<or> (0x2000 \<le> c \<and> c \<le> 0x200A) \<or> c = 0x2028 \<or> c = 0x2029 \<or> c = 0x202F \<or> c = 0x205F
     \<or> c = 0x3000 \<or> c = 0xFEFF"

text \<open>\<open>[^\s\}]\<close>\<close>

definition spec_char :: "jschar \<Rightarrow> bool" where
  "spec_char c \<longleftrightarrow> \<not> is_space c \<and> c \<noteq> of_char CHR ''}''"

text \<open>\<^verbatim>\<open>/\{\{\s*__(time_from|time_to):date(?::([^\s\}]+))?\s*\}\}/g\<close>\<close>

definition customFuncRegex :: regex where
  "customFuncRegex =
     Seq (lit (js ''{{'')) (Seq (Star is_space) (Seq (lit (js ''__''))
       (Seq (Grp 1 (Alt (lit (js ''time_from'')) (lit (js ''time_to''))))
         (Seq (lit (js '':date''))
           (Seq (Opt (Seq (Chr (of_char CHR '':'')) (Grp 2 (Plus spec_char))))
             (Seq (Star is_space) (lit (js ''}}''))))))))"

definition timeToObjectId :: "int \<Rightarrow> jsstring" where
  "timeToObjectId time =
     (let timestamp = toString 16 (time div 1000) in timestamp @ js ''0000000000000000'')"

text \<open>
  The replacer: \<open>p1\<close> and \<open>p2\<close> are the two capture groups. \<open>fmt\<close> is the \<open>format\<close>
  of the date library, which the program imports: it gives a text or throws. The range is
  \<open>None\<close> where the request has none (\<open>request.range\<close> is \<open>undefined\<close>): reading
  \<open>from\<close> of it throws.
\<close>

definition replacer ::
  "(int \<Rightarrow> jsstring \<Rightarrow> error + jsstring) \<Rightarrow> TimeRange option \<Rightarrow> match_result \<Rightarrow> error + jsstring" where
  "replacer fmt timeRange m =
     (let p1 = groups m 1; p2 = groups m 2 in
      case timeRange of
        None \<Rightarrow> Inl TypeError
      | Some tr \<Rightarrow>
          (let timeValue = (if p1 = Some (js ''time_from'') then from tr else to tr) in
           case p2 of
             None \<Rightarrow> Inr (toISOString timeValue)
           | Some spec \<Rightarrow>
               if spec = [] \<or> spec = js ''iso'' then Inr (toISOString timeValue)
               else if spec = js ''toObjectId'' then Inr (timeToObjectId timeValue)
               else if spec = js ''seconds'' then Inr (toString 10 (timeValue div 1000))
               else if spec = js ''milliseconds'' then Inr (toString 10 timeValue)
               else fmt timeValue spec))"

definition replaceCustomFunctions ::
  "(int \<Rightarrow> jsstring \<Rightarrow> error + jsstring) \<Rightarrow> jsstring \<Rightarrow> TimeRange option \<Rightarrow> error + jsstring" where
  "replaceCustomFunctions fmt aggregation timeRange =
     replace_global customFuncRegex (replacer fmt timeRange) aggregation"

section \<open>The expression read directly\<close>

text \<open>
  What the expression accepts at the start of a text, written as a reader that never goes
  back: the braces, white space, the marker, the selector, the suffix, the optional
  specifier, white space, the braces. \<open>exec_customFuncRegex\<close> below proves that the
  backtracking matcher finds exactly this.
\<close>

definition starts_with :: "jsstring \<Rightarrow> jsstring \<Rightarrow> bool" where
  "starts_with l s \<longleftrightarrow> take (length l) s = l"

definition strip :: "jsstring \<Rightarrow> jsstring \<Rightarrow> jsstring option" where
  "strip l s = (if starts_with l s then Some (drop (length l) s) else None)"

definition selector :: "jsstring \<Rightarrow> (jsstring \<times> jsstring) option" where
  "selector s =
     (case strip (js ''time_from'') s of
        Some r \<Rightarrow> Some (js ''time_from'', r)
      | None \<Rightarrow> (case strip (js ''time_to'') s of Some r \<Rightarrow> Some (js ''time_to'', r) | None \<Rightarrow> None))"

definition closing :: "jsstring \<Rightarrow> jsstring option" where
  "closing s = strip (js ''}}'') (dropWhile is_space s)"

definition specifier :: "jsstring \<Rightarrow> (jsstring option \<times> jsstring) option" where
  "specifier s =
     (case s of
        c # c' # s' \<Rightarrow>
          if c = of_char CHR '':'' \<and> spec_char c'
          then map_option (\<lambda>r. (Some (c' # takeWhile spec_char s'), r)) (closing (dropWhile spec_char s'))
          else map_option (Pair None) (closing s)
      | _ \<Rightarrow> map_option (Pair None) (closing s))"

definition macro_at :: "jsstring \<Rightarrow> match_result option" where
  "macro_at s =
     (case strip (js ''{{'') s of None \<Rightarrow> None | Some s1 \<Rightarrow>
      case strip (js ''__'') (dropWhile is_space s1) of None \<Rightarrow> None | Some s2 \<Rightarrow>
      case selector s2 of None \<Rightarrow> None | Some (p1, s3) \<Rightarrow>
      case strip (js '':date'') s3 of None \<Rightarrow> None | Some s4 \<Rightarrow>
      case specifier s4 of None \<Rightarrow> None | Some (p2, r) \<Rightarrow>
        Some \<lparr>matched = take (length s - length r) s,
              groups = (case p2 of None \<Rightarrow> [1 \<mapsto> p1] | Some sp \<Rightarrow> [1 \<mapsto> p1, 2 \<mapsto> sp]),
              rest = r\<rparr>)"


section \<open>Macro texts\<close>

text \<open>
  The texts the claims speak of: white space, the two selectors, a format specifier, and
  the macro built of them, with white space behind the opening and before the closing
  braces.
\<close>

definition spaces :: "jsstring \<Rightarrow> bool" where
  "spaces w \<longleftrightarrow> list_all is_space w"

definition selector_name :: "jsstring \<Rightarrow> bool" where
  "selector_name sel \<longleftrightarrow> sel = js ''time_from'' \<or> sel = js ''time_to''"

definition spec_text :: "jsstring \<Rightarrow> bool" where
  "spec_text sp \<longleftrightarrow> sp \<noteq> [] \<and> list_all spec_char sp"

definition spec_suffix :: "jsstring option \<Rightarrow> jsstring" where
  "spec_suffix spec = (case spec of None \<Rightarrow> [] | Some sp \<Rightarrow> js '':'' @ sp)"

definition macro :: "jsstring \<Rightarrow> jsstring \<Rightarrow> jsstring option \<Rightarrow> jsstring \<Rightarrow> jsstring" where
  "macro w1 sel spec w2 =
     js ''{{'' @ w1 @ js ''__'' @ sel @ js '':date'' @ spec_suffix spec @ w2 @ js ''}}''"

definition well_formed_spec :: "jsstring option \<Rightarrow> bool" where
  "well_formed_spec spec = (case spec of None \<Rightarrow> True | Some sp \<Rightarrow> spec_text sp)"

section \<open>The scan up to a place in the text\<close>

text \<open>
  \<open>scan_to fmt timeRange s n\<close>: what \<open>replaceCustomFunctions\<close> has produced when its scan
  of \<open>s\<close> stands behind the first \<open>n\<close> characters: the output so far, or the exception
  of a replacement made on the way. It is \<open>None\<close> where the scan never stands there,
  because a match begins before that place and ends behind it: the characters at that
  place are then part of that match.
\<close>

function scan_to ::
  "(int \<Rightarrow> jsstring \<Rightarrow> error + jsstring) \<Rightarrow> TimeRange option \<Rightarrow> jsstring \<Rightarrow> nat
     \<Rightarrow> (error + jsstring) option" where
  "scan_to fmt timeRange s n =
     (if n = 0 then Some (Inr [])
      else case exec customFuncRegex s of
        None \<Rightarrow>
          (case s of
             [] \<Rightarrow> None
           | c # cs \<Rightarrow> map_option (prepend [c]) (scan_to fmt timeRange cs (n - 1)))
      | Some m \<Rightarrow>
          if length s \<le> length (rest m) \<or> n < length s - length (rest m) then None
          else (case replacer fmt timeRange m of
                  Inl e \<Rightarrow> Some (Inl e)
                | Inr out \<Rightarrow>
                    map_option (prepend out)
                      (scan_to fmt timeRange (rest m) (n - (length s - length (rest m))))))"
  by pat_completeness auto
termination
  by (relation "measure (\<lambda>(fmt, timeRange, s, n). length s)") auto

declare scan_to.simps [simp del]

text \<open>The output so far, followed by a text and by what the scan gives from there on.\<close>

fun continue :: "error + jsstring \<Rightarrow> jsstring \<Rightarrow> error + jsstring \<Rightarrow> error + jsstring" where
  "continue (Inl e) u r = Inl e"
| "continue (Inr p) u r = prepend (p @ u) r"

section \<open>Reading an ISO text back\<close>

text \<open>
  The reader that the round trip is stated with: it accepts the complete date-time form
  with three digits of milliseconds and the UTC designator \<open>Z\<close>, the year either of four
  digits or of a sign and six, checks the ranges of the fields, and puts the instant
  together as \<open>Date.parse\<close> does, with \<open>MakeDay\<close>, \<open>MakeTime\<close> and \<open>MakeDate\<close> of the
  language standard.
\<close>

definition digit_value :: "jschar \<Rightarrow> nat option" where
  "digit_value c = (if of_char CHR ''0'' \<le> c \<and> c \<le> of_char CHR ''9'' then Some (unat c - 48) else None)"

fun number_from :: "nat \<Rightarrow> jsstring \<Rightarrow> nat option" where
  "number_from acc [] = Some acc"
| "number_from acc (c # cs) =
     (case digit_value c of None \<Rightarrow> None | Some d \<Rightarrow> number_from (10 * acc + d) cs)"

text \<open>A field of exactly \<open>w\<close> digits, and the text behind it.\<close>

definition field :: "nat \<Rightarrow> jsstring \<Rightarrow> (nat \<times> jsstring) option" where
  "field w s =
     (if length s < w then None
      else map_option (\<lambda>n. (n, drop w s)) (number_from 0 (take w s)))"

definition expect :: "jschar \<Rightarrow> jsstring \<Rightarrow> jsstring option" where
  "expect c s = (case s of [] \<Rightarrow> None | x # xs \<Rightarrow> if x = c then Some xs else None)"

definition year_field :: "jsstring \<Rightarrow> (int \<times> jsstring) option" where
  "year_field s =
     (case s of
        [] \<Rightarrow> None
      | c # cs \<Rightarrow>
          if c = of_char CHR ''+'' then map_option (\<lambda>(n, r). (int n, r)) (field 6 cs)
          else if c = of_char CHR ''-''
          then (case field 6 cs of
                  None \<Rightarrow> None
                | Some (n, r) \<Rightarrow> if n = 0 then None else Some (- int n, r))
          else map_option (\<lambda>(n, r). (int n, r)) (field 4 s))"

definition days_in_month :: "int \<Rightarrow> int \<Rightarrow> int" where
  "days_in_month l m =
     (if m = 1 then 28 + l else if m = 3 \<or> m = 5 \<or> m = 8 \<or> m = 10 then 30 else 31)"

definition MakeDay :: "int \<Rightarrow> int \<Rightarrow> int \<Rightarrow> int" where
  "MakeDay year month date =
     DayFromYear year + month_start (if DaysInYear year = 366 then 1 else 0) month + date - 1"

definition MakeTime :: "int \<Rightarrow> int \<Rightarrow> int \<Rightarrow> int \<Rightarrow> int" where
  "MakeTime hour minute second ms = hour * 3600000 + minute * 60000 + second * 1000 + ms"

definition MakeDate :: "int \<Rightarrow> int \<Rightarrow> int" where
  "MakeDate day time = day * msPerDay + time"

definition TimeClip :: "int \<Rightarrow> int option" where
  "TimeClip t = (if valid_time t then Some t else None)"

definition parse_iso :: "jsstring \<Rightarrow> int option" where
  "parse_iso s0 =
     Option.bind (year_field s0) (\<lambda>(year, s1).
     Option.bind (expect (of_char CHR ''-'') s1) (\<lambda>s2.
     Option.bind (field 2 s2) (\<lambda>(month, s3).
     Option.bind (expect (of_char CHR ''-'') s3) (\<lambda>s4.
     Option.bind (field 2 s4) (\<lambda>(date, s5).
     Option.bind (expect (of_char CHR ''T'') s5) (\<lambda>s6.
     Option.bind (field 2 s6) (\<lambda>(hour, s7).
     Option.bind (expect (of_char CHR '':'') s7) (\<lambda>s8.
     Option.bind (field 2 s8) (\<lambda>(minute, s9).
     Option.bind (expect (of_char CHR '':'') s9) (\<lambda>s10.
     Option.bind (field 2 s10) (\<lambda>(second, s11).
     Option.bind (expect (of_char CHR ''.'') s11) (\<lambda>s12.
     Option.bind (field 3 s12) (\<lambda>(ms, s13).
       if s13 = js ''Z'' \<and> 1 \<le> month \<and> month \<le> 12 \<and> 1 \<le> date
          \<and> int date \<le> days_in_month (if DaysInYear year = 366 then 1 else 0) (int month - 1)
          \<and> hour \<le> 23 \<and> minute \<le> 59 \<and> second \<le> 59
       then TimeClip (MakeDate (MakeDay year (int month - 1) (int date))
                        (MakeTime (int hour) (int minute) (int second) (int ms)))
       else None)))))))))))))"

section \<open>The timestamp of an object identifier\<close>

text \<open>A 32-bit unsigned value in hexadecimal, the most significant digit first: the eight
  digits that an object identifier begins with.\<close>

definition hex32 :: "nat \<Rightarrow> jsstring" where
  "hex32 n = map (\<lambda>i. digit_char ((n div 16 ^ (7 - i)) mod 16)) [0..<8]"

section \<open>Queries, template variables and the variable query\<close>

text \<open>
  Modelled from the spec: the declarations of \<open>./types\<close> (\<open>MongoDBQuery\<close>,
  \<open>MongoDBVariableQuery\<close>, \<open>MongoDBQueryType\<close>) are not among the sources. A query has
  the fields that the data source reads and writes; the three texts may be absent; whatever
  else a query carries is the extension of the record. Of the query types only \<open>Table\<close> is
  named by the code.
\<close>

datatype MongoDBQueryType = Timeseries | Table

record MongoDBQuery =
  refId :: jsstring
  database :: "jsstring option"
  collection :: "jsstring option"
  queryType :: "MongoDBQueryType option"
  timestampField :: "jsstring option"
  timestampFormat :: "jsstring option"
  labelFields :: "jsstring list"
  valueFields :: "jsstring list"
  valueFieldTypes :: "jsstring list"
  aggregation :: "jsstring option"
  autoTimeBound :: bool
  autoTimeSort :: bool
  schemaInference :: bool
  schemaInferenceDepth :: int

record MongoDBVariableQuery =
  vq_database :: "jsstring option"
  vq_collection :: "jsstring option"
  fieldName :: jsstring
  fieldType :: jsstring
  vq_aggregation :: "jsstring option"

text \<open>The test \<open>v ? ... : ...\<close> on a text that may be absent: \<open>undefined\<close> and the empty
  text count as false.\<close>

definition truthy :: "jsstring option \<Rightarrow> bool" where
  "truthy v = (case v of None \<Rightarrow> False | Some s \<Rightarrow> s \<noteq> [])"

text \<open>
  \<open>replace\<close> is \<open>templateSrv.replace\<close> of the host, a parameter: the text, the scoped
  variables and the format (\<open>None\<close>, or \<open>json\<close> for the aggregation).
\<close>

definition template_text ::
  "(jsstring \<Rightarrow> 'sv \<Rightarrow> jsstring option \<Rightarrow> jsstring) \<Rightarrow> jsstring option \<Rightarrow> 'sv \<Rightarrow> jsstring option
     \<Rightarrow> jsstring" where
  "template_text replace v scopedVars format =
     (case v of None \<Rightarrow> [] | Some s \<Rightarrow> if truthy v then replace s scopedVars format else [])"

definition applyTemplateVariables ::
  "(jsstring \<Rightarrow> 'sv \<Rightarrow> jsstring option \<Rightarrow> jsstring) \<Rightarrow> 'a MongoDBQuery_scheme \<Rightarrow> 'sv
     \<Rightarrow> 'a MongoDBQuery_scheme" where
  "applyTemplateVariables replace query scopedVars =
     query\<lparr>
       database := Some (template_text replace (database query) scopedVars None),
       collection := Some (template_text replace (collection query) scopedVars None),
       aggregation := Some (template_text replace (aggregation query) scopedVars (Some (js ''json'')))\<rparr>"

text \<open>
  Objects are held by reference. A store is the list of the query objects there are, an
  object's address its index. The object spread of \<open>applyTemplateVariables\<close> makes a new
  object and writes to no field of \<open>query\<close>: the result is a new address, the store grows
  by one object.
\<close>

type_synonym 'a store = "'a MongoDBQuery_scheme list"

definition applyTemplateVariables_at ::
  "(jsstring \<Rightarrow> 'sv \<Rightarrow> jsstring option \<Rightarrow> jsstring) \<Rightarrow> 'a store \<Rightarrow> nat \<Rightarrow> 'sv
     \<Rightarrow> (nat \<times> 'a store) option" where
  "applyTemplateVariables_at replace h a scopedVars =
     (if a < length h then Some (length h, h @ [applyTemplateVariables replace (h ! a) scopedVars])
      else None)"

subsection \<open>Requests, responses and streams\<close>

text \<open>
  A request: the targets, the time range and the scoped variables, which may be absent,
  and whatever else it carries. The options of \<open>metricFindQuery\<close> are of type \<open>any\<close>:
  absent, or an object that may have each of these.
\<close>

record ('a, 'sv, 'x) DataQueryRequest =
  targets :: "'a MongoDBQuery_scheme list"
  range :: "TimeRange option"
  scopedVars :: "'sv option"
  other :: "'x option"

record ('a, 'sv, 'x) Options =
  opt_targets :: "'a MongoDBQuery_scheme list option"
  opt_range :: "TimeRange option"
  opt_scopedVars :: "'sv option"
  opt_other :: 'x

record DataQueryError =
  message :: "jsstring option"

record 'f DataQueryResponse =
  error :: "DataQueryError option"
  data :: "'f list option"

text \<open>
  A stream, seen from its subscriber: the responses it emits, and then its completion, its
  failure, or neither. A promise settles with a value or with an exception, or stays
  pending.
\<close>

datatype 'r observable = Completes "'r list" | Fails "'r list" error | Pending "'r list"

datatype 'v promise = Resolved 'v | Rejected error | Unsettled

fun lastValueFrom :: "'r observable \<Rightarrow> 'r promise" where
  "lastValueFrom (Completes rs) = (if rs = [] then Rejected EmptyError else Resolved (last rs))"
| "lastValueFrom (Fails rs e) = Rejected e"
| "lastValueFrom (Pending rs) = Unsettled"

text \<open>\<open>request.targets.map\<close> with a function that may throw: the first exception ends it.\<close>

fun map_throwing :: "('a \<Rightarrow> error + 'b) \<Rightarrow> 'a list \<Rightarrow> error + 'b list" where
  "map_throwing f [] = Inr []"
| "map_throwing f (x # xs) =
     (case f x of
        Inl e \<Rightarrow> Inl e
      | Inr y \<Rightarrow> (case map_throwing f xs of Inl e \<Rightarrow> Inl e | Inr ys \<Rightarrow> Inr (y # ys)))"

text \<open>The body of \<open>query\<close> up to the call of the backend: the request with its targets
  rewritten.\<close>

definition processTarget ::
  "(jsstring \<Rightarrow> 'sv option \<Rightarrow> jsstring option \<Rightarrow> jsstring) \<Rightarrow> (int \<Rightarrow> jsstring \<Rightarrow> error + jsstring)
     \<Rightarrow> ('a, 'sv, 'x) DataQueryRequest \<Rightarrow> 'a MongoDBQuery_scheme \<Rightarrow> error + 'a MongoDBQuery_scheme" where
  "processTarget replace fmt request target =
     (let processedQuery = applyTemplateVariables replace target (scopedVars request) in
      case aggregation processedQuery of
        None \<Rightarrow> Inl TypeError
      | Some a \<Rightarrow>
          (case replaceCustomFunctions fmt a (range request) of
             Inl e \<Rightarrow> Inl e
           | Inr a' \<Rightarrow> Inr (processedQuery\<lparr>aggregation := Some a'\<rparr>)))"

definition modifiedRequest ::
  "(jsstring \<Rightarrow> 'sv option \<Rightarrow> jsstring option \<Rightarrow> jsstring) \<Rightarrow> (int \<Rightarrow> jsstring \<Rightarrow> error + jsstring)
     \<Rightarrow> ('a, 'sv, 'x) DataQueryRequest \<Rightarrow> error + ('a, 'sv, 'x) DataQueryRequest" where
  "modifiedRequest replace fmt request =
     (case map_throwing (processTarget replace fmt request) (targets request) of
        Inl e \<Rightarrow> Inl e
      | Inr processedTargets \<Rightarrow> Inr (request\<lparr>targets := processedTargets\<rparr>))"

text \<open>\<open>query\<close>; \<open>superQuery\<close> is the \<open>query\<close> of the base class, which sends the request
  to the backend.\<close>

definition query ::
  "(jsstring \<Rightarrow> 'sv option \<Rightarrow> jsstring option \<Rightarrow> jsstring) \<Rightarrow> (int \<Rightarrow> jsstring \<Rightarrow> error + jsstring)
     \<Rightarrow> (('a, 'sv, 'x) DataQueryRequest \<Rightarrow> 'f DataQueryResponse observable)
     \<Rightarrow> ('a, 'sv, 'x) DataQueryRequest \<Rightarrow> error + 'f DataQueryResponse observable" where
  "query replace fmt superQuery request =
     (case modifiedRequest replace fmt request of
        Inl e \<Rightarrow> Inl e
      | Inr r \<Rightarrow> Inr (superQuery r))"

subsection \<open>\<open>metricFindQuery\<close>\<close>

definition target :: "MongoDBVariableQuery \<Rightarrow> MongoDBQuery" where
  "target vq =
     \<lparr>refId = js ''metricFindQuery'',
      database = vq_database vq,
      collection = vq_collection vq,
      queryType = Some Table,
      timestampField = Some [],
      timestampFormat = Some [],
      labelFields = [],
      valueFields = [fieldName vq],
      valueFieldTypes = [fieldType vq],
      aggregation = vq_aggregation vq,
      autoTimeBound = False,
      autoTimeSort = False,
      schemaInference = False,
      schemaInferenceDepth = 0\<rparr>"

text \<open>
  \<open>{...options, targets: [target]}\<close>: the properties of the options are copied, none
  where the options are \<open>undefined\<close>, and \<open>targets\<close> is then set.
\<close>

definition spread :: "('a, 'sv, 'x) Options option \<Rightarrow> ('a, 'sv, 'x) DataQueryRequest" where
  "spread options =
     (case options of
        None \<Rightarrow> \<lparr>targets = [], range = None, scopedVars = None, other = None\<rparr>
      | Some opts \<Rightarrow>
          \<lparr>targets = (case opt_targets opts of None \<Rightarrow> [] | Some ts \<Rightarrow> ts),
           range = opt_range opts, scopedVars = opt_scopedVars opts, other = Some (opt_other opts)\<rparr>)"

definition dataQuery ::
  "MongoDBVariableQuery \<Rightarrow> (unit, 'sv, 'x) Options option \<Rightarrow> (unit, 'sv, 'x) DataQueryRequest" where
  "dataQuery vq options = (spread options)\<lparr>targets := [target vq]\<rparr>"

text \<open>The function given to \<open>then\<close>; \<open>frameToMetricFindValue\<close> is the host's.\<close>

definition on_response :: "('f \<Rightarrow> 'v list) \<Rightarrow> 'f DataQueryResponse \<Rightarrow> error + 'v list" where
  "on_response frameToMetricFindValue rsp =
     (case error rsp of
        Some err \<Rightarrow> Inl (Error (case message err of None \<Rightarrow> [] | Some m \<Rightarrow> m))
      | None \<Rightarrow>
          (case data rsp of
             None \<Rightarrow> Inr []
           | Some [] \<Rightarrow> Inr []
           | Some (frame # _) \<Rightarrow> Inr (frameToMetricFindValue frame)))"

fun settle :: "error + 'v \<Rightarrow> 'v promise" where
  "settle (Inl e) = Rejected e"
| "settle (Inr v) = Resolved v"

definition metricFindQuery ::
  "(jsstring \<Rightarrow> 'sv option \<Rightarrow> jsstring option \<Rightarrow> jsstring) \<Rightarrow> (int \<Rightarrow> jsstring \<Rightarrow> error + jsstring)
     \<Rightarrow> ((unit, 'sv, 'x) DataQueryRequest \<Rightarrow> 'f DataQueryResponse observable)
     \<Rightarrow> ('f \<Rightarrow> 'v list) \<Rightarrow> MongoDBVariableQuery \<Rightarrow> (unit, 'sv, 'x) Options option \<Rightarrow> 'v list promise" where
  "metricFindQuery replace fmt superQuery frameToMetricFindValue vq options =
     (case query replace fmt superQuery (dataQuery vq options) of
        Inl e \<Rightarrow> Rejected e
      | Inr stream \<Rightarrow>
          (case lastValueFrom stream of
             Resolved rsp \<Rightarrow> settle (on_response frameToMetricFindValue rsp)
           | Rejected e \<Rightarrow> Rejected e
           | Unsettled \<Rightarrow> Unsettled))"

section \<open>The matcher on the expression of the program\<close>

lemma strip_Nil [simp]: "strip [] s = Some s"
  by (simp add: strip_def starts_with_def)

lemma strip_Cons: "strip (c # l) s = (case s of [] \<Rightarrow> None | x # xs \<Rightarrow> if x = c then strip l xs else None)"
  by (cases s) (auto simp: strip_def starts_with_def)

lemma strip_Some: "strip l s = Some r \<longleftrightarrow> s = l @ r"
  by (auto simp: strip_def starts_with_def) (metis append_take_drop_id)

lemma matches_lit: "matches (lit l) (s, caps) = (case strip l s of None \<Rightarrow> [] | Some r \<Rightarrow> [(r, caps)])"
proof (induction l arbitrary: s)
  case Nil
  then show ?case by (simp add: lit.simps)
next
  case (Cons c l)
  then show ?case by (cases s) (simp_all add: strip_Cons lit.simps)
qed

lemma matches_Seq_lit:
  "matches (Seq (lit l) r) (s, caps) = (case strip l s of None \<Rightarrow> [] | Some s' \<Rightarrow> matches r (s', caps))"
  by (simp add: matches_lit split: option.split)

lemma concat_star_rests:
  assumes "\<And>x xs. p x \<Longrightarrow> g (x # xs) = []"
  shows "concat (map g (star_rests p s)) = g (dropWhile p s)"
  using assms by (induction s) simp_all

lemma matches_Seq_Star:
  assumes "\<And>x xs. p x \<Longrightarrow> matches r (x # xs, caps) = []"
  shows "matches (Seq (Star p) r) (s, caps) = matches r (dropWhile p s, caps)"
proof -
  have "concat (map (\<lambda>s'. matches r (s', caps)) (star_rests p s)) = matches r (dropWhile p s, caps)"
    using assms by (rule concat_star_rests)
  then show ?thesis by (simp add: comp_def)
qed

lemma is_space_not_brace: "is_space x \<Longrightarrow> x \<noteq> of_char CHR ''}''"
  by (auto simp: is_space_def)

lemma is_space_not_underscore: "is_space x \<Longrightarrow> x \<noteq> of_char CHR ''_''"
  by (auto simp: is_space_def)

lemma is_space_not_colon: "is_space x \<Longrightarrow> x \<noteq> of_char CHR '':''"
  by (auto simp: is_space_def)

lemma closing_space: "is_space x \<Longrightarrow> closing (x # xs) = closing xs"
  by (simp add: closing_def)

lemma closing_spec_char: "spec_char x \<Longrightarrow> closing (x # xs) = None"
  by (simp add: closing_def spec_char_def strip_Cons)

lemma matches_closing:
  "matches (Seq (Star is_space) (lit (js ''}}''))) (s, caps) =
     (case closing s of None \<Rightarrow> [] | Some r \<Rightarrow> [(r, caps)])"
proof -
  have "matches (lit (js ''}}'')) (x # xs, caps) = []" if "is_space x" for x xs
    using is_space_not_brace [OF that] by (simp add: matches_lit strip_Cons)
  then show ?thesis
    by (simp only: matches_Seq_Star) (simp add: matches_lit closing_def)
qed

lemma take_takeWhile_dropWhile:
  "take (Suc (length xs) - length (dropWhile p xs)) (c # xs) = c # takeWhile p xs"
proof -
  have "length xs = length (takeWhile p xs) + length (dropWhile p xs)"
    by (metis length_append takeWhile_dropWhile_id)
  then have "Suc (length xs) - length (dropWhile p xs) = Suc (length (takeWhile p xs))"
    by simp
  then show ?thesis
    by (simp add: take_Suc_Cons) (metis append_eq_conv_conj takeWhile_dropWhile_id)
qed

lemma matches_spec_closing:
  assumes "spec_char c"
  shows "concat (map (matches (Seq (Star is_space) (lit (js ''}}''))))
           (matches (Grp 2 (Plus spec_char)) (c # s, caps))) =
         (case closing (dropWhile spec_char s) of None \<Rightarrow> []
          | Some r \<Rightarrow> [(r, caps(2 \<mapsto> c # takeWhile spec_char s))])"
proof -
  let ?g = "\<lambda>s'. case closing s' of None \<Rightarrow> []
     | Some r \<Rightarrow> [(r, caps(2 \<mapsto> take (Suc (length s) - length s') (c # s)))]"
  have g: "concat (map ?g (star_rests spec_char s)) = ?g (dropWhile spec_char s)"
    by (rule concat_star_rests) (simp add: closing_spec_char)
  have m: "matches (Grp 2 (Plus spec_char)) (c # s, caps) =
      map (\<lambda>s'. (s', caps(2 \<mapsto> take (Suc (length s) - length s') (c # s)))) (star_rests spec_char s)"
    using assms by (simp add: Plus_def comp_def del: take_Suc_Cons)
  have "concat (map (matches (Seq (Star is_space) (lit (js ''}}'')))) (matches (Grp 2 (Plus spec_char)) (c # s, caps))) =
      concat (map ?g (star_rests spec_char s))"
    unfolding m by (simp only: map_map comp_def matches_closing)
  also have "\<dots> = ?g (dropWhile spec_char s)"
    by (rule g)
  finally show ?thesis
    by (simp only: take_takeWhile_dropWhile)
qed


lemma colon_spec_char: "spec_char (of_char CHR '':'')"
  by (simp add: spec_char_def is_space_def)

lemma matches_specifier:
  "matches (Seq (Opt (Seq (Chr (of_char CHR '':'')) (Grp 2 (Plus spec_char))))
      (Seq (Star is_space) (lit (js ''}}'')))) (s, caps) =
   (case specifier s of None \<Rightarrow> []
    | Some (p2, r) \<Rightarrow> [(r, case p2 of None \<Rightarrow> caps | Some sp \<Rightarrow> caps(2 \<mapsto> sp))])"
proof -
  let ?K = "Seq (Star is_space) (lit (js ''}}''))"
  let ?X = "Seq (Chr (of_char CHR '':'')) (Grp 2 (Plus spec_char))"
  have split: "matches (Seq (Opt ?X) ?K) (u, caps) =
      concat (map (matches ?K) (matches ?X (u, caps))) @ matches ?K (u, caps)" for u
    by simp
  show ?thesis
  proof (cases s)
    case Nil
    have "matches ?X ([], caps) = []"
      by simp
    then show ?thesis
      unfolding split Nil
      by (simp only: matches_closing) (simp add: specifier_def del: matches.simps split: option.split)
  next
    case outer: (Cons c s1)
    show ?thesis
    proof (cases s1)
      case Nil
      have "matches ?X ([c], caps) = []"
        by (simp add: Plus_def)
      then show ?thesis
        unfolding split outer Nil
        by (simp only: matches_closing) (simp add: specifier_def del: matches.simps split: option.split)
    next
      case (Cons c' s')
      show ?thesis
      proof (cases "c = of_char CHR '':'' \<and> spec_char c'")
        case True
        then have X: "matches ?X (s, caps) = matches (Grp 2 (Plus spec_char)) (c' # s', caps)"
          by (simp add: outer Cons)
        have "closing s = None"
          using True colon_spec_char by (simp add: outer closing_spec_char)
        then have K: "matches ?K (s, caps) = []"
          by (simp only: matches_closing) simp
        from True have sp: "spec_char c'" by simp
        show ?thesis
          unfolding split X K matches_spec_closing [OF sp]
          using True by (simp add: specifier_def outer Cons del: matches.simps split: option.split)
      next
        case False
        then have X: "matches ?X (s, caps) = []"
          by (auto simp: outer Cons Plus_def)
        from False have S: "specifier s = map_option (Pair None) (closing s)"
          by (auto simp: specifier_def outer Cons)
        show ?thesis
          unfolding split X S by (simp only: matches_closing) (simp split: option.split)
      qed
    qed
  qed
qed

lemma strip_time_from_to: "strip (js ''time_from'') s = Some r \<Longrightarrow> strip (js ''time_to'') s = None"
  by (auto simp: strip_Cons split: list.splits if_splits)

lemma take_strip: "strip l s = Some r \<Longrightarrow> take (length s - length r) s = l"
  by (auto simp: strip_Some)

lemma matches_selector:
  "matches (Seq (Grp 1 (Alt (lit (js ''time_from'')) (lit (js ''time_to'')))) R) (s, caps) =
   (case selector s of None \<Rightarrow> [] | Some (p1, r) \<Rightarrow> matches R (r, caps(1 \<mapsto> p1)))"
proof (cases "strip (js ''time_from'') s")
  case None
  then show ?thesis
    by (cases "strip (js ''time_to'') s") (simp_all add: matches_lit selector_def take_strip)
next
  case (Some r)
  then show ?thesis
    using strip_time_from_to [OF Some] by (simp add: matches_lit selector_def take_strip)
qed

lemma matches_customFuncRegex:
  "matches customFuncRegex (s, Map.empty) =
     (case strip (js ''{{'') s of None \<Rightarrow> [] | Some s1 \<Rightarrow>
      case strip (js ''__'') (dropWhile is_space s1) of None \<Rightarrow> [] | Some s2 \<Rightarrow>
      case selector s2 of None \<Rightarrow> [] | Some (p1, s3) \<Rightarrow>
      case strip (js '':date'') s3 of None \<Rightarrow> [] | Some s4 \<Rightarrow>
      case specifier s4 of None \<Rightarrow> [] | Some (p2, r) \<Rightarrow>
        [(r, case p2 of None \<Rightarrow> [1 \<mapsto> p1] | Some sp \<Rightarrow> [1 \<mapsto> p1, 2 \<mapsto> sp])])"
proof -
  have sp: "matches (Seq (lit (js ''__'')) R) (x # xs, caps) = []" if "is_space x" for R x xs caps
    using is_space_not_underscore [OF that] by (simp add: matches_Seq_lit strip_Cons del: matches.simps)
  show ?thesis
    unfolding customFuncRegex_def
    by (simp only: matches_Seq_lit matches_Seq_Star [OF sp] matches_selector matches_specifier)
qed

theorem exec_customFuncRegex: "exec customFuncRegex s = macro_at s"
  by (simp add: exec_def macro_at_def matches_customFuncRegex split: option.split)

section \<open>The scan of \<open>replaceCustomFunctions\<close>\<close>

lemma prepend_prepend: "prepend a (prepend b r) = prepend (a @ b) r"
  by (cases r) simp_all

lemma prepend_Nil [simp]: "prepend [] r = r"
  by (cases r) simp_all

lemma strip_length: "strip l s = Some r \<Longrightarrow> length s = length l + length r"
  by (simp add: strip_Some)

lemma length_dropWhile: "length (dropWhile p xs) \<le> length xs"
  by (induction xs) auto

lemma selector_length: "selector s = Some (p, r) \<Longrightarrow> length r \<le> length s"
  by (auto simp: selector_def split: option.splits dest!: strip_length)

lemma closing_length: "closing s = Some r \<Longrightarrow> length r \<le> length s"
  using length_dropWhile [of is_space s] by (auto simp: closing_def dest!: strip_length)

lemma specifier_length: "specifier s = Some (p, r) \<Longrightarrow> length r \<le> length s"
proof (cases s)
  case Nil
  assume "specifier s = Some (p, r)"
  with Nil show ?thesis by (auto simp: specifier_def dest!: closing_length)
next
  case outer: (Cons c s1)
  assume a: "specifier s = Some (p, r)"
  show ?thesis
  proof (cases s1)
    case Nil
    with a outer show ?thesis by (auto simp: specifier_def dest!: closing_length)
  next
    case (Cons c' s')
    with a outer show ?thesis
      using length_dropWhile [of spec_char s']
      by (auto simp: specifier_def split: if_splits dest!: closing_length)
  qed
qed

lemma macro_at_SomeD:
  assumes "macro_at s = Some m"
  shows "\<exists>s1 s2 p1 s3 s4 p2 r. strip (js ''{{'') s = Some s1
      \<and> strip (js ''__'') (dropWhile is_space s1) = Some s2
      \<and> selector s2 = Some (p1, s3) \<and> strip (js '':date'') s3 = Some s4
      \<and> specifier s4 = Some (p2, r) \<and> rest m = r"
  using assms by (auto simp: macro_at_def split: option.splits)

lemma macro_at_rest:
  assumes "macro_at s = Some m"
  shows "length (rest m) < length s"
proof -
  from macro_at_SomeD [OF assms] obtain s1 s2 p1 s3 s4 p2 r where
    1: "strip (js ''{{'') s = Some s1" and 2: "strip (js ''__'') (dropWhile is_space s1) = Some s2"
    and 3: "selector s2 = Some (p1, s3)" and 4: "strip (js '':date'') s3 = Some s4"
    and 5: "specifier s4 = Some (p2, r)" and 6: "rest m = r"
    by blast
  show ?thesis
    using strip_length [OF 1] strip_length [OF 2] selector_length [OF 3] strip_length [OF 4]
      specifier_length [OF 5] length_dropWhile [of is_space s1] 6
    by simp
qed

lemma replaceCustomFunctions_Nil: "replaceCustomFunctions fmt [] tr = Inr []"
  by (simp add: replaceCustomFunctions_def replace_global.simps [of _ _ "[]"] exec_customFuncRegex
      macro_at_def strip_def starts_with_def)

lemma replaceCustomFunctions_skip:
  "macro_at (c # cs) = None \<Longrightarrow>
     replaceCustomFunctions fmt (c # cs) tr = prepend [c] (replaceCustomFunctions fmt cs tr)"
  by (simp add: replaceCustomFunctions_def replace_global.simps [of _ _ "c # cs"] exec_customFuncRegex)

lemma replaceCustomFunctions_match:
  "macro_at s = Some m \<Longrightarrow>
     replaceCustomFunctions fmt s tr =
       (case replacer fmt tr m of Inl e \<Rightarrow> Inl e
        | Inr out \<Rightarrow> prepend out (replaceCustomFunctions fmt (rest m) tr))"
  using macro_at_rest [of s m]
  by (simp add: replaceCustomFunctions_def replace_global.simps [of _ _ s] exec_customFuncRegex
      split: sum.split)

lemma macro_at_no_brace: "c \<noteq> of_char CHR ''{'' \<Longrightarrow> macro_at (c # cs) = None"
  by (simp add: macro_at_def strip_Cons)

lemma macro_at_one_brace: "c \<noteq> of_char CHR ''{'' \<Longrightarrow> macro_at (x # c # cs) = None"
  by (simp add: macro_at_def strip_Cons)

lemma replaceCustomFunctions_no_brace:
  assumes "\<forall>c\<in>set u. c \<noteq> of_char CHR ''{''"
  shows "replaceCustomFunctions fmt (u @ v) tr = prepend u (replaceCustomFunctions fmt v tr)"
  using assms
proof (induction u)
  case Nil
  then show ?case by simp
next
  case (Cons c u)
  then show ?case
    by (simp add: replaceCustomFunctions_skip macro_at_no_brace prepend_prepend)
qed

section \<open>Well-formed and malformed macros\<close>

lemma strip_append [simp]: "strip l (l @ r) = Some r"
  by (simp add: strip_Some)

lemma dropWhile_spaces:
  "spaces w \<Longrightarrow> s = [] \<or> \<not> is_space (hd s) \<Longrightarrow> dropWhile is_space (w @ s) = s"
  by (induction w) (auto simp: spaces_def dropWhile_eq_self_iff)

lemma dropWhile_spec:
  "list_all spec_char sp \<Longrightarrow> s = [] \<or> \<not> spec_char (hd s) \<Longrightarrow> dropWhile spec_char (sp @ s) = s"
  by (induction sp) (auto simp: dropWhile_eq_self_iff)

lemma takeWhile_spec:
  "list_all spec_char sp \<Longrightarrow> s = [] \<or> \<not> spec_char (hd s) \<Longrightarrow> takeWhile spec_char (sp @ s) = sp"
  by (induction sp) (auto simp: takeWhile_eq_Nil_iff)

lemma selector_sel: "selector_name sel \<Longrightarrow> selector (sel @ r) = Some (sel, r)"
  unfolding selector_name_def
proof (elim disjE)
  assume "sel = js ''time_from''"
  then show ?thesis by (simp only: selector_def strip_append) simp
next
  assume s: "sel = js ''time_to''"
  have "strip (js ''time_from'') (js ''time_to'' @ r) = None"
    by (simp add: strip_Cons)
  then show ?thesis unfolding s by (simp only: selector_def strip_append) simp
qed

lemma closing_spaces: "spaces w \<Longrightarrow> closing (w @ js ''}}'' @ r) = Some r"
proof -
  assume w: "spaces w"
  have "dropWhile is_space (w @ js ''}}'' @ r) = js ''}}'' @ r"
    by (rule dropWhile_spaces [OF w]) (simp add: is_space_def)
  then show ?thesis
    by (simp only: closing_def strip_append)
qed

lemma specifier_no_colon:
  "s = [] \<or> hd s \<noteq> of_char CHR '':'' \<Longrightarrow> specifier s = map_option (Pair None) (closing s)"
  by (auto simp: specifier_def split: list.splits)

lemma specifier_none:
  assumes "spaces w"
  shows "specifier (w @ js ''}}'' @ r) = Some (None, r)"
proof -
  have "hd (w @ js ''}}'' @ r) \<noteq> of_char CHR '':''"
    using assms by (cases w) (auto simp: spaces_def dest: is_space_not_colon)
  then have "specifier (w @ js ''}}'' @ r) = map_option (Pair None) (closing (w @ js ''}}'' @ r))"
    by (intro specifier_no_colon disjI2)
  then show ?thesis
    by (simp only: closing_spaces [OF assms]) simp
qed

lemma not_spec_char_closing: "spaces w \<Longrightarrow> \<not> spec_char (hd (w @ js ''}}'' @ r))"
  by (cases w) (auto simp: spaces_def spec_char_def)

lemma specifier_some:
  assumes "spec_text sp" "spaces w"
  shows "specifier (js '':'' @ sp @ w @ js ''}}'' @ r) = Some (Some sp, r)"
proof -
  from assms(1) obtain c sp' where sp: "sp = c # sp'" and c: "spec_char c" and sp': "list_all spec_char sp'"
    by (cases sp) (auto simp: spec_text_def)
  have n: "w @ js ''}}'' @ r = [] \<or> \<not> spec_char (hd (w @ js ''}}'' @ r))"
    using not_spec_char_closing [OF assms(2)] by blast
  have d: "dropWhile spec_char (sp' @ w @ js ''}}'' @ r) = w @ js ''}}'' @ r"
    by (rule dropWhile_spec [OF sp' n])
  have t: "takeWhile spec_char (sp' @ w @ js ''}}'' @ r) = sp'"
    by (rule takeWhile_spec [OF sp' n])
  have "specifier (of_char CHR '':'' # c # sp' @ w @ js ''}}'' @ r) = Some (Some (c # sp'), r)"
    using c by (simp only: specifier_def list.case d t closing_spaces [OF assms(2)]) simp
  then show ?thesis by (simp add: sp)
qed

lemma specifier_suffix:
  assumes "well_formed_spec spec" "spaces w"
  shows "specifier (spec_suffix spec @ w @ js ''}}'' @ r) = Some (spec, r)"
proof (cases spec)
  case None
  then show ?thesis using specifier_none [OF assms(2)] by (simp add: spec_suffix_def)
next
  case (Some sp)
  with assms(1) have "spec_text sp" by (simp add: well_formed_spec_def)
  from specifier_some [OF this assms(2)] show ?thesis by (simp add: Some spec_suffix_def)
qed

lemma macro_at_opening:
  assumes "spaces w" "selector_name sel"
  shows "macro_at (js ''{{'' @ w @ js ''__'' @ sel @ s) =
     (case strip (js '':date'') s of None \<Rightarrow> None | Some s4 \<Rightarrow>
      case specifier s4 of None \<Rightarrow> None | Some (p2, r) \<Rightarrow>
        Some \<lparr>matched = take (length (js ''{{'' @ w @ js ''__'' @ sel @ s) - length r) (js ''{{'' @ w @ js ''__'' @ sel @ s),
              groups = (case p2 of None \<Rightarrow> [1 \<mapsto> sel] | Some sp \<Rightarrow> [1 \<mapsto> sel, 2 \<mapsto> sp]),
              rest = r\<rparr>)"
proof -
  have d: "dropWhile is_space (w @ js ''__'' @ sel @ s) = js ''__'' @ sel @ s"
    by (rule dropWhile_spaces [OF assms(1)]) (simp add: is_space_def)
  show ?thesis
    by (simp only: macro_at_def strip_append d selector_sel [OF assms(2)] option.case prod.case)
qed

lemma macro_at_macro:
  assumes "spaces w1" "selector_name sel" "well_formed_spec spec" "spaces w2"
  shows "macro_at (macro w1 sel spec w2 @ r) =
     Some \<lparr>matched = macro w1 sel spec w2,
           groups = (case spec of None \<Rightarrow> [1 \<mapsto> sel] | Some sp \<Rightarrow> [1 \<mapsto> sel, 2 \<mapsto> sp]),
           rest = r\<rparr>"
proof -
  have e: "macro w1 sel spec w2 @ r =
      js ''{{'' @ w1 @ js ''__'' @ sel @ (js '':date'' @ spec_suffix spec @ w2 @ js ''}}'' @ r)"
    by (simp add: macro_def)
  have l: "length (macro w1 sel spec w2 @ r) - length r = length (macro w1 sel spec w2)"
    by simp
  show ?thesis
    unfolding e macro_at_opening [OF assms(1,2)]
    apply (simp only: strip_append option.case specifier_suffix [OF assms(3,4)] prod.case)
    apply (simp only: e [symmetric] l)
    apply simp
    done
qed

section \<open>Expansion of a well-formed macro\<close>

lemma replicate_numeral: "replicate (numeral k) x = x # replicate (pred_numeral k) x"
  by (simp add: numeral_eq_Suc)

lemma replacer_matched:
  "replacer fmt tr \<lparr>matched = x, groups = g, rest = r\<rparr> = replacer fmt tr \<lparr>matched = y, groups = g, rest = r'\<rparr>"
  by (simp add: replacer_def)

lemma expand_macro:
  assumes "spaces w1" "selector_name sel" "well_formed_spec spec" "spaces w2"
  shows "replaceCustomFunctions fmt (macro w1 sel spec w2 @ r) tr =
     (case replacer fmt tr \<lparr>matched = [], groups = (case spec of None \<Rightarrow> [1 \<mapsto> sel] | Some sp \<Rightarrow> [1 \<mapsto> sel, 2 \<mapsto> sp]), rest = []\<rparr> of
        Inl e \<Rightarrow> Inl e
      | Inr out \<Rightarrow> prepend out (replaceCustomFunctions fmt r tr))"
  by (simp add: replaceCustomFunctions_match [OF macro_at_macro [OF assms]]
      replacer_matched [of fmt tr "macro w1 sel spec w2" _ r "[]" "[]"] split: sum.split)

lemma text_is_macro:
  "js ''{{__time_from:date:toObjectId}}'' = macro [] (js ''time_from'') (Some (js ''toObjectId'')) [] @ []"
  "js ''{{__time_from:date}}'' = macro [] (js ''time_from'') None [] @ []"
  by (simp_all add: macro_def spec_suffix_def)

lemma expand_toObjectId:
  "replaceCustomFunctions fmt (js ''{{__time_from:date:toObjectId}}'') (Some tr) = Inr (timeToObjectId (from tr))"
  unfolding text_is_macro
  by (subst expand_macro)
    (simp_all add: spaces_def selector_name_def well_formed_spec_def spec_text_def spec_char_def
      is_space_def replacer_def replaceCustomFunctions_Nil)

lemma expand_default:
  "replaceCustomFunctions fmt (js ''{{__time_from:date}}'') (Some tr) = Inr (toISOString (from tr))"
  unfolding text_is_macro
  by (subst expand_macro)
    (simp_all add: spaces_def selector_name_def well_formed_spec_def replacer_def replaceCustomFunctions_Nil)

lemma digits_16_2021: "digits 16 1609459200 = js ''5fee6600''"
  by (simp add: digits.simps digit_char_def)

lemma digits_16_0: "digits 16 0 = js ''0''"
  by (simp add: digits.simps digit_char_def)

section \<open>Texts that are not macros\<close>

lemmas date_defs = toISOString_def YearFromTime_def YearFromDay_def Day_def msPerDay_def DayFromYear_def
     MonthFromTime_def DateFromTime_def InLeapYear_def DaysInYear_def DayWithinYear_def month_of_def month_start_def
     HourFromTime_def MinFromTime_def SecFromTime_def msFromTime_def year_string_def pad_def digits.simps digit_char_def replicate_numeral

lemma toISOString_epoch: "toISOString 0 = js ''1970-01-01T00:00:00.000Z''"
  by (simp add: date_defs)

lemma opening_scan:
  assumes "spaces w" "selector_name sel" "macro_at (js ''{{'' @ w @ js ''__'' @ sel @ s) = None"
  shows "replaceCustomFunctions fmt (js ''{{'' @ w @ js ''__'' @ sel @ s) tr =
     prepend (js ''{{'' @ w @ js ''__'' @ sel) (replaceCustomFunctions fmt s tr)"
proof -
  let ?u = "w @ js ''__'' @ sel"
  have nb: "\<forall>c\<in>set ?u. c \<noteq> of_char CHR ''{''"
    using assms(1,2) by (auto simp: spaces_def selector_name_def list_all_iff is_space_def)
  have hd: "?u @ s = hd ?u # tl ?u @ s" "hd ?u \<noteq> of_char CHR ''{''"
    using assms(1,2) by (cases w; auto simp: spaces_def is_space_def)+
  have 1: "replaceCustomFunctions fmt (js ''{{'' @ ?u @ s) tr =
      prepend (js ''{'') (replaceCustomFunctions fmt (js ''{'' @ ?u @ s) tr)"
    using assms(3) replaceCustomFunctions_skip [of "of_char CHR ''{''" "js ''{'' @ ?u @ s" fmt tr]
    by simp
  have "macro_at (of_char CHR ''{'' # (?u @ s)) = None"
    by (subst hd(1)) (rule macro_at_one_brace [OF hd(2)])
  then have 2: "replaceCustomFunctions fmt (js ''{'' @ ?u @ s) tr =
      prepend (js ''{'') (replaceCustomFunctions fmt (?u @ s) tr)"
    using replaceCustomFunctions_skip [of "of_char CHR ''{''" "?u @ s" fmt tr]
    by simp
  have 3: "replaceCustomFunctions fmt (?u @ s) tr = prepend ?u (replaceCustomFunctions fmt s tr)"
    by (rule replaceCustomFunctions_no_brace [OF nb])
  show ?thesis
    using 1 2 3 by (simp add: prepend_prepend)
qed

lemma macro_at_no_date:
  assumes "spaces w" "selector_name sel" "\<not> starts_with (js '':date'') s"
  shows "macro_at (js ''{{'' @ w @ js ''__'' @ sel @ s) = None"
proof -
  have "strip (js '':date'') s = None"
    using assms(3) by (simp add: strip_def)
  then show ?thesis
    by (simp only: macro_at_opening [OF assms(1,2)] option.case)
qed

lemma macro_at_empty_spec:
  assumes "spaces w1" "selector_name sel" "spaces w2"
  shows "macro_at (js ''{{'' @ w1 @ js ''__'' @ sel @ js '':date:'' @ w2 @ js ''}}'' @ r) = None"
proof -
  have n: "\<not> spec_char (hd (w2 @ js ''}}'' @ r))"
    by (rule not_spec_char_closing [OF assms(3)])
  obtain c u where cu: "w2 @ js ''}}'' @ r = c # u"
    by (cases "w2 @ js ''}}'' @ r") auto
  with n have c: "\<not> spec_char c" by simp
  have "closing (of_char CHR '':'' # c # u) = None"
    by (rule closing_spec_char [OF colon_spec_char])
  then have "specifier (of_char CHR '':'' # c # u) = None"
    using c by (simp add: specifier_def)
  then have s: "specifier (js '':'' @ w2 @ js ''}}'' @ r) = None"
    using cu by simp
  have e: "js ''{{'' @ w1 @ js ''__'' @ sel @ js '':date:'' @ w2 @ js ''}}'' @ r =
      js ''{{'' @ w1 @ js ''__'' @ sel @ (js '':date'' @ js '':'' @ w2 @ js ''}}'' @ r)"
    by simp
  show ?thesis
    unfolding e macro_at_opening [OF assms(1,2)]
    by (simp only: strip_append option.case s)
qed

lemma replaceCustomFunctions_plain:
  "\<forall>c\<in>set u. c \<noteq> of_char CHR ''{'' \<Longrightarrow> replaceCustomFunctions fmt u tr = Inr u"
  using replaceCustomFunctions_no_brace [of u fmt "[]" tr]
  by (simp add: replaceCustomFunctions_Nil)

lemma empty_spec_scan:
  assumes "spaces w1" "selector_name sel" "spaces w2"
  shows "replaceCustomFunctions fmt (js ''{{'' @ w1 @ js ''__'' @ sel @ js '':date:'' @ w2 @ js ''}}'' @ r) tr =
     prepend (js ''{{'' @ w1 @ js ''__'' @ sel @ js '':date:'' @ w2 @ js ''}}'') (replaceCustomFunctions fmt r tr)"
proof -
  have nb: "\<forall>c\<in>set (js '':date:'' @ w2 @ js ''}}''). c \<noteq> of_char CHR ''{''"
    using assms(3) by (auto simp: spaces_def list_all_iff is_space_def)
  have "replaceCustomFunctions fmt (js ''{{'' @ w1 @ js ''__'' @ sel @ (js '':date:'' @ w2 @ js ''}}'' @ r)) tr =
      prepend (js ''{{'' @ w1 @ js ''__'' @ sel) (replaceCustomFunctions fmt (js '':date:'' @ w2 @ js ''}}'' @ r) tr)"
    by (rule opening_scan [OF assms(1,2)]) (rule macro_at_empty_spec [OF assms])
  moreover have "replaceCustomFunctions fmt ((js '':date:'' @ w2 @ js ''}}'') @ r) tr =
      prepend (js '':date:'' @ w2 @ js ''}}'') (replaceCustomFunctions fmt r tr)"
    by (rule replaceCustomFunctions_no_brace [OF nb])
  ultimately show ?thesis
    by (simp add: prepend_prepend)
qed

lemma macro_at_after_date:
  assumes "spaces w1" "selector_name sel" "specifier s = None"
  shows "macro_at (js ''{{'' @ w1 @ js ''__'' @ sel @ js '':date'' @ s) = None"
  unfolding macro_at_opening [OF assms(1,2)]
  by (simp only: strip_append option.case assms(3))

lemma specifier_space_colon:
  assumes "spaces w" "w \<noteq> []"
  shows "specifier (w @ js '':'' @ x) = None"
proof -
  from assms obtain c w' where w: "w = c # w'" and c: "is_space c"
    by (cases w) (auto simp: spaces_def)
  have "hd (w @ js '':'' @ x) \<noteq> of_char CHR '':''"
    using is_space_not_colon [OF c] by (simp add: w)
  then have "specifier (w @ js '':'' @ x) = map_option (Pair None) (closing (w @ js '':'' @ x))"
    by (intro specifier_no_colon disjI2)
  moreover have "dropWhile is_space (w @ js '':'' @ x) = js '':'' @ x"
    by (rule dropWhile_spaces [OF assms(1)]) (simp add: is_space_def)
  then have "closing (w @ js '':'' @ x) = None"
    by (simp add: closing_def strip_Cons)
  ultimately show ?thesis by simp
qed

lemma specifier_colon_space:
  assumes "spaces w" "w \<noteq> []"
  shows "specifier (js '':'' @ w @ x) = None"
proof -
  from assms obtain c w' where w: "w = c # w'" and c: "is_space c"
    by (cases w) (auto simp: spaces_def)
  have n: "\<not> spec_char c"
    using c by (simp add: spec_char_def)
  have "closing (of_char CHR '':'' # c # w' @ x) = None"
    by (rule closing_spec_char [OF colon_spec_char])
  then show ?thesis
    using n by (simp add: specifier_def w)
qed

lemma not_starts_with_space:
  assumes "spaces w" "w \<noteq> []"
  shows "\<not> starts_with (js '':date'') (w @ x)"
proof -
  from assms obtain c w' where w: "w = c # w'" and c: "is_space c"
    by (cases w) (auto simp: spaces_def)
  show ?thesis
    using is_space_not_colon [OF c] by (simp add: starts_with_def w)
qed

section \<open>The scan up to a place\<close>

lemma continue_prepend: "continue (prepend out p) u r = prepend out (continue p u r)"
  by (cases p; cases r) simp_all

lemma selector_suffix: "selector s = Some (p, r) \<Longrightarrow> \<exists>u. s = u @ r"
  by (auto simp: selector_def strip_Some split: option.splits)

lemma closing_suffix: "closing s = Some r \<Longrightarrow> \<exists>u. s = u @ r"
proof -
  assume "closing s = Some r"
  then have "dropWhile is_space s = js ''}}'' @ r"
    by (simp add: closing_def strip_Some)
  then have "s = (takeWhile is_space s @ js ''}}'') @ r"
    by (metis append.assoc takeWhile_dropWhile_id)
  then show ?thesis by blast
qed

lemma specifier_suffix_rest: "specifier s = Some (p, r) \<Longrightarrow> \<exists>u. s = u @ r"
proof (cases s)
  case Nil
  assume "specifier s = Some (p, r)"
  with Nil show ?thesis by (auto simp: specifier_def dest!: closing_suffix)
next
  case outer: (Cons c s1)
  assume a: "specifier s = Some (p, r)"
  show ?thesis
  proof (cases s1)
    case Nil
    with a outer show ?thesis by (auto simp: specifier_def dest!: closing_suffix)
  next
    case (Cons c' s')
    show ?thesis
    proof (cases "c = of_char CHR '':'' \<and> spec_char c'")
      case True
      with a outer Cons have "closing (dropWhile spec_char s') = Some r"
        by (auto simp: specifier_def)
      from closing_suffix [OF this] obtain u where "dropWhile spec_char s' = u @ r" ..
      then have "s' = (takeWhile spec_char s' @ u) @ r"
        by (metis append.assoc takeWhile_dropWhile_id)
      then have "s = (c # c' # takeWhile spec_char s' @ u) @ r"
        by (simp add: outer Cons)
      then show ?thesis by blast
    next
      case False
      with a outer Cons have "closing s = Some r"
        by (auto simp: specifier_def)
      then show ?thesis by (rule closing_suffix)
    qed
  qed
qed

lemma macro_at_suffix:
  assumes "macro_at s = Some m"
  shows "drop (length s - length (rest m)) s = rest m"
proof -
  from macro_at_SomeD [OF assms] obtain s1 s2 p1 s3 s4 p2 r where
    1: "strip (js ''{{'') s = Some s1" and 2: "strip (js ''__'') (dropWhile is_space s1) = Some s2"
    and 3: "selector s2 = Some (p1, s3)" and 4: "strip (js '':date'') s3 = Some s4"
    and 5: "specifier s4 = Some (p2, r)" and 6: "rest m = r"
    by blast
  from specifier_suffix_rest [OF 5] obtain u5 where "s4 = u5 @ r" ..
  with 4 have "s3 = (js '':date'' @ u5) @ r" by (simp add: strip_Some)
  with selector_suffix [OF 3] obtain u3 where "s2 = u3 @ r" by (metis append.assoc)
  with 2 have "dropWhile is_space s1 = (js ''__'' @ u3) @ r" by (simp add: strip_Some)
  then have "s1 = (takeWhile is_space s1 @ js ''__'' @ u3) @ r"
    by (metis append.assoc takeWhile_dropWhile_id)
  with 1 have "s = (js ''{{'' @ takeWhile is_space s1 @ js ''__'' @ u3) @ r"
    by (simp add: strip_Some)
  then obtain u where "s = u @ r" by blast
  then show ?thesis by (simp add: 6)
qed

lemma scan_to_replace:
  "scan_to fmt tr s n = Some pre \<Longrightarrow>
     replaceCustomFunctions fmt s tr = continue pre [] (replaceCustomFunctions fmt (drop n s) tr)"
proof (induction fmt tr s n arbitrary: pre rule: scan_to.induct)
  case (1 fmt tr s n)
  show ?case
  proof (cases "n = 0")
    case True
    with "1.prems" show ?thesis
      by (auto simp: scan_to.simps [of _ _ s])
  next
    case n: False
    show ?thesis
    proof (cases "macro_at s")
      case None
      with n "1.prems" obtain c cs p where s: "s = c # cs"
        and p: "scan_to fmt tr cs (n - 1) = Some p" and pre: "pre = prepend [c] p"
        by (auto simp: scan_to.simps [of _ _ s] exec_customFuncRegex split: list.splits)
      from "1.IH"(1) [OF n _ s p] None
      have ih: "replaceCustomFunctions fmt cs tr = continue p [] (replaceCustomFunctions fmt (drop (n - 1) cs) tr)"
        by (simp add: exec_customFuncRegex)
      have d: "drop n s = drop (n - 1) cs"
        using n s by (cases n) simp_all
      from None s have "replaceCustomFunctions fmt s tr = prepend [c] (replaceCustomFunctions fmt cs tr)"
        by (simp add: replaceCustomFunctions_skip)
      with ih d pre show ?thesis
        by (simp add: continue_prepend)
    next
      case (Some m)
      let ?k = "length s - length (rest m)"
      from Some n "1.prems" have k: "\<not> (length s \<le> length (rest m) \<or> n < ?k)"
        by (auto simp: scan_to.simps [of _ _ s] exec_customFuncRegex split: if_splits)
      show ?thesis
      proof (cases "replacer fmt tr m")
        case (Inl e)
        with Some n k "1.prems" have "pre = Inl e"
          by (simp add: scan_to.simps [of _ _ s] exec_customFuncRegex)
        then show ?thesis
          using Inl Some by (simp add: replaceCustomFunctions_match)
      next
        case (Inr out)
        with Some n k "1.prems" obtain p where p: "scan_to fmt tr (rest m) (n - ?k) = Some p"
          and pre: "pre = prepend out p"
          by (auto simp: scan_to.simps [of _ _ s] exec_customFuncRegex)
        from "1.IH"(2) [OF n _ k Inr p] Some
        have ih: "replaceCustomFunctions fmt (rest m) tr =
             continue p [] (replaceCustomFunctions fmt (drop (n - ?k) (rest m)) tr)"
          by (simp add: exec_customFuncRegex)
        have "n - ?k + ?k = n"
          using k by linarith
        then have "drop n s = drop (n - ?k) (drop ?k s)"
          by (simp only: drop_drop)
        then have d: "drop n s = drop (n - ?k) (rest m)"
          by (simp only: macro_at_suffix [OF Some])
        show ?thesis
          using Inr Some ih d pre by (simp add: replaceCustomFunctions_match continue_prepend)
      qed
    qed
  qed
qed

lemma continue_Nil_prepend: "continue pre [] (prepend u r) = continue pre u r"
  by (cases pre; cases r) simp_all

lemma scan_to_0: "scan_to fmt tr s 0 = Some (Inr [])"
  by (simp add: scan_to.simps [of _ _ s])

lemma scan_to_skip:
  "macro_at (c # cs) = None \<Longrightarrow> 0 < n \<Longrightarrow>
     scan_to fmt tr (c # cs) n = map_option (prepend [c]) (scan_to fmt tr cs (n - 1))"
  by (simp add: scan_to.simps [of _ _ "c # cs"] exec_customFuncRegex)

lemma scan_to_match:
  "macro_at s = Some m \<Longrightarrow> replacer fmt tr m = Inr out \<Longrightarrow> length s - length (rest m) \<le> n \<Longrightarrow>
     scan_to fmt tr s n = map_option (prepend out) (scan_to fmt tr (rest m) (n - (length s - length (rest m))))"
  using macro_at_rest [of s m]
  by (cases "n = 0") (auto simp: scan_to.simps [of _ _ s] exec_customFuncRegex)

lemma scan_example:
  "scan_to fmt (Some \<lparr>from = 0, to = 5000\<rparr>) (js ''{{__time_to:date:seconds}} {{ __time_from}}'') 27 = Some (Inr (js ''5 ''))"
proof -
  have m: "macro_at (macro [] (js ''time_to'') (Some (js ''seconds'')) [] @ js '' {{ __time_from}}'') =
      Some \<lparr>matched = macro [] (js ''time_to'') (Some (js ''seconds'')) [],
        groups = [1 \<mapsto> js ''time_to'', 2 \<mapsto> js ''seconds''], rest = js '' {{ __time_from}}''\<rparr>"
    by (subst macro_at_macro)
      (simp_all add: spaces_def selector_name_def well_formed_spec_def spec_text_def spec_char_def is_space_def)
  have r: "replacer fmt (Some \<lparr>from = 0, to = 5000\<rparr>) \<lparr>matched = macro [] (js ''time_to'') (Some (js ''seconds'')) [],
        groups = [1 \<mapsto> js ''time_to'', 2 \<mapsto> js ''seconds''], rest = js '' {{ __time_from}}''\<rparr> = Inr (js ''5'')"
    by (simp add: replacer_def toString_def digits.simps digit_char_def)
  have e: "js ''{{__time_to:date:seconds}} {{ __time_from}}'' =
      macro [] (js ''time_to'') (Some (js ''seconds'')) [] @ js '' {{ __time_from}}''"
    by (simp add: macro_def spec_suffix_def)
  have l: "length (macro [] (js ''time_to'') (Some (js ''seconds'')) []) = 26"
    by (simp add: macro_def spec_suffix_def)
  have "scan_to fmt (Some \<lparr>from = 0, to = 5000\<rparr>) (macro [] (js ''time_to'') (Some (js ''seconds'')) [] @ js '' {{ __time_from}}'') 27 =
      map_option (prepend (js ''5'')) (scan_to fmt (Some \<lparr>from = 0, to = 5000\<rparr>) (js '' {{ __time_from}}'') 1)"
    by (subst scan_to_match [OF m r]) (simp_all add: macro_def spec_suffix_def)
  also have "\<dots> = Some (Inr (js ''5 ''))"
    by (simp add: scan_to_skip macro_at_no_brace scan_to_0)
  finally show ?thesis
    unfolding e .
qed

lemma scan_to_inside_specifier:
  "scan_to (\<lambda>_ p. Inr p) (Some \<lparr>from = 0, to = 0\<rparr>) (js ''{{__time_from:date:{{__time_to}}'') 19 = None"
proof -
  have e: "js ''{{__time_from:date:{{__time_to}}'' = macro [] (js ''time_from'') (Some (js ''{{__time_to'')) [] @ []"
    by (simp add: macro_def spec_suffix_def)
  have m: "macro_at (macro [] (js ''time_from'') (Some (js ''{{__time_to'')) [] @ []) =
      Some \<lparr>matched = macro [] (js ''time_from'') (Some (js ''{{__time_to'')) [],
        groups = [1 \<mapsto> js ''time_from'', 2 \<mapsto> js ''{{__time_to''], rest = []\<rparr>"
    by (subst macro_at_macro)
      (simp_all add: spaces_def selector_name_def well_formed_spec_def spec_text_def spec_char_def is_space_def)
  have l: "length (macro [] (js ''time_from'') (Some (js ''{{__time_to'')) []) = 32"
    by (simp add: macro_def spec_suffix_def)
  show ?thesis
    unfolding e
    by (subst scan_to.simps) (simp only: exec_customFuncRegex m option.case, simp add: macro_def spec_suffix_def)
qed

section \<open>The variable query\<close>

lemma template_text_falsy: "\<not> truthy v \<Longrightarrow> template_text replace v sv f = []"
  by (cases v) (simp_all add: template_text_def)

lemma metricFindQuery_stream:
  assumes "query replace fmt superQuery (dataQuery vq options) = Inr stream"
  shows "metricFindQuery replace fmt superQuery frameToMetricFindValue vq options =
     (case lastValueFrom stream of
        Resolved rsp \<Rightarrow> settle (on_response frameToMetricFindValue rsp)
      | Rejected e \<Rightarrow> Rejected e
      | Unsettled \<Rightarrow> Unsettled)"
  using assms by (simp add: metricFindQuery_def)

lemma query_plain:
  assumes "\<forall>c\<in>set a. c \<noteq> of_char CHR ''{''"
  shows "query (\<lambda>s _ _. s) fmt superQuery
      (dataQuery \<lparr>vq_database = d, vq_collection = c, fieldName = n, fieldType = ty, vq_aggregation = Some a\<rparr> options) =
    Inr (superQuery ((dataQuery \<lparr>vq_database = d, vq_collection = c, fieldName = n, fieldType = ty, vq_aggregation = Some a\<rparr> options)
      \<lparr>targets := [(target \<lparr>vq_database = d, vq_collection = c, fieldName = n, fieldType = ty, vq_aggregation = Some a\<rparr>)
          \<lparr>database := Some (case d of None \<Rightarrow> [] | Some s \<Rightarrow> s),
           collection := Some (case c of None \<Rightarrow> [] | Some s \<Rightarrow> s)\<rparr>]\<rparr>))"
  using assms
  by (cases d; cases c)
    (auto simp add: query_def modifiedRequest_def dataQuery_def processTarget_def applyTemplateVariables_def
      template_text_def truthy_def target_def replaceCustomFunctions_plain replaceCustomFunctions_Nil)

lemma map_throwing_one:
  "map_throwing f [x] = (case f x of Inl e \<Rightarrow> Inl e | Inr y \<Rightarrow> Inr [y])"
  by (simp split: sum.split)


lemma query_vq0:
  "query (\<lambda>s _ _. s) fmt (\<lambda>_. stream)
      (dataQuery \<lparr>vq_database = Some (js ''db''), vq_collection = Some (js ''c''), fieldName = js ''f'',
         fieldType = js ''string'', vq_aggregation = Some (js ''[]'')\<rparr> options) = Inr stream"
  by (subst query_plain) simp_all

section \<open>The date arithmetic\<close>

lemma div_step:
  fixes a k :: int
  assumes k: "0 < k"
  shows "(a + 1) div k = a div k + (if (a + 1) mod k = 0 then 1 else 0)"
proof -
  have a: "a = k * (a div k) + a mod k" by simp
  have r: "0 \<le> a mod k" "a mod k < k" using k by simp_all
  show ?thesis
  proof (cases "a mod k = k - 1")
    case True
    with a have e: "a + 1 = k * (a div k + 1) + 0"
      by (simp add: algebra_simps)
    have "(a + 1) div k = a div k + 1"
      by (rule int_div_pos_eq [OF e]) (use k in simp_all)
    moreover have "(a + 1) mod k = 0"
      by (rule int_mod_pos_eq [OF e]) (use k in simp_all)
    ultimately show ?thesis by simp
  next
    case False
    then have lt: "a mod k + 1 < k" using r by linarith
    from a have e: "a + 1 = k * (a div k) + (a mod k + 1)"
      by (simp add: algebra_simps)
    have "(a + 1) div k = a div k"
      by (rule int_div_pos_eq [OF e]) (use r lt in simp_all)
    moreover have "(a + 1) mod k = a mod k + 1"
      by (rule int_mod_pos_eq [OF e]) (use r lt in simp_all)
    ultimately show ?thesis using r by simp
  qed
qed

lemma DayFromYear_step: "DayFromYear (y + 1) = DayFromYear y + DaysInYear y"
proof -
  have 4: "(y + 1 - 1969) div 4 = (y - 1969) div 4 + (if y mod 4 = 0 then 1 else 0)"
  proof -
    have "(y - 1968) mod 4 = (y - 4 * 492) mod 4" by simp
    also have "\<dots> = y mod 4" by (simp only: mod_diff_eq [symmetric, of y "4 * 492"] ) simp
    finally show ?thesis using div_step [of 4 "y - 1969"] by simp
  qed
  have 100: "(y + 1 - 1901) div 100 = (y - 1901) div 100 + (if y mod 100 = 0 then 1 else 0)"
  proof -
    have "(y - 1900) mod 100 = (y - 100 * 19) mod 100" by simp
    also have "\<dots> = y mod 100" by (simp only: mod_diff_eq [symmetric, of y "100 * 19"] ) simp
    finally show ?thesis using div_step [of 100 "y - 1901"] by simp
  qed
  have 400: "(y + 1 - 1601) div 400 = (y - 1601) div 400 + (if y mod 400 = 0 then 1 else 0)"
  proof -
    have "(y - 1600) mod 400 = (y - 400 * 4) mod 400" by simp
    also have "\<dots> = y mod 400" by (simp only: mod_diff_eq [symmetric, of y "400 * 4"] ) simp
    finally show ?thesis using div_step [of 400 "y - 1601"] by simp
  qed
  have m1: "y mod 100 = 0" if "y mod 400 = 0"
  proof -
    from that have "400 dvd y" by (simp add: dvd_eq_mod_eq_0)
    then have "100 dvd y" by (rule dvd_trans [rotated]) simp
    then show ?thesis by (simp add: dvd_eq_mod_eq_0)
  qed
  have m2: "y mod 4 = 0" if "y mod 100 = 0"
  proof -
    from that have "100 dvd y" by (simp add: dvd_eq_mod_eq_0)
    then have "4 dvd y" by (rule dvd_trans [rotated]) simp
    then show ?thesis by (simp add: dvd_eq_mod_eq_0)
  qed
  show ?thesis
    unfolding DayFromYear_def DaysInYear_def 4 100 400 using m1 m2 by auto
qed


lemma floor_bounds:
  fixes x m :: int
  assumes "0 < m"
  shows "m * (x div m) \<le> x" "x < m * (x div m) + m"
proof -
  have "x = m * (x div m) + x mod m" by simp
  moreover have "0 \<le> x mod m" "x mod m < m" using assms by simp_all
  ultimately show "m * (x div m) \<le> x" "x < m * (x div m) + m" by linarith+
qed

lemma DayFromYear_upper:
  "400 * DayFromYear (1970 + j) \<le> 146097 * j + 589"
proof -
  define a where "a = (j + 1) div 4"
  define b where "b = (j + 69) div 100"
  define c where "c = (j + 369) div 400"
  have "4 * a \<le> j + 1" "j + 69 < 100 * b + 100" "400 * c \<le> j + 369"
    unfolding a_def b_def c_def by (simp_all add: floor_bounds)
  moreover have "DayFromYear (1970 + j) = 365 * j + a - b + c"
    unfolding DayFromYear_def a_def b_def c_def by (simp add: algebra_simps)
  ultimately show ?thesis by linarith
qed

lemma DayFromYear_lower:
  "146097 * j - 506 \<le> 400 * DayFromYear (1970 + j)"
proof -
  define a where "a = (j + 1) div 4"
  define b where "b = (j + 69) div 100"
  define c where "c = (j + 369) div 400"
  have "j + 1 < 4 * a + 4" "100 * b \<le> j + 69" "j + 369 < 400 * c + 400"
    unfolding a_def b_def c_def by (simp_all add: floor_bounds)
  moreover have "DayFromYear (1970 + j) = 365 * j + a - b + c"
    unfolding DayFromYear_def a_def b_def c_def by (simp add: algebra_simps)
  ultimately show ?thesis by linarith
qed

lemma YearFromDay_bounds:
  "DayFromYear (YearFromDay d) \<le> d \<and> d < DayFromYear (YearFromDay d + 1)"
proof -
  define k where "k = (400 * d) div 146097"
  have k: "146097 * k \<le> 400 * d" "400 * d < 146097 * k + 146097"
    unfolding k_def by (simp_all add: floor_bounds)
  have lo: "DayFromYear (1970 + (k - 1)) \<le> d"
  proof -
    have "400 * DayFromYear (1970 + (k - 1)) \<le> 400 * d"
      using DayFromYear_upper [of "k - 1"] k by simp
    then show ?thesis by simp
  qed
  have hi: "d < DayFromYear (1970 + (k + 2))"
  proof -
    have "400 * d < 400 * DayFromYear (1970 + (k + 2))"
      using DayFromYear_lower [of "k + 2"] k by simp
    then show ?thesis by simp
  qed
  have e: "1970 + k - 1 = 1970 + (k - 1)" "1970 + k - 1 + 1 = 1970 + k" "1970 + k + 1 + 1 = 1970 + (k + 2)"
    by simp_all
  show ?thesis
    unfolding YearFromDay_def Let_def k_def [symmetric]
    using lo hi by (auto simp: e)
qed

lemma DayFromYear_mono: "y \<le> y' \<Longrightarrow> DayFromYear y \<le> DayFromYear y'"
proof -
  have "DayFromYear y \<le> DayFromYear (y + int n)" for n
  proof (induction n)
    case 0
    then show ?case by simp
  next
    case (Suc n)
    have "0 \<le> DaysInYear (y + int n)" by (simp add: DaysInYear_def)
    moreover have "y + int (Suc n) = (y + int n) + 1" by simp
    ultimately show ?case using Suc by (simp only: DayFromYear_step)
  qed
  from this [of "nat (y' - y)"] show "y \<le> y' \<Longrightarrow> DayFromYear y \<le> DayFromYear y'"
    by simp
qed

text \<open>The year of the language standard: the largest whose first day is not later.\<close>

lemma YearFromDay_largest:
  "DayFromYear (YearFromDay d) \<le> d \<and> (\<forall>y. DayFromYear y \<le> d \<longrightarrow> y \<le> YearFromDay d)"
proof -
  have "y \<le> YearFromDay d" if "DayFromYear y \<le> d" for y
  proof (rule ccontr)
    assume "\<not> y \<le> YearFromDay d"
    then have "YearFromDay d + 1 \<le> y" by simp
    from DayFromYear_mono [OF this] that YearFromDay_bounds [of d] show False by linarith
  qed
  with YearFromDay_bounds [of d] show ?thesis by blast
qed

lemma DayWithinYear_bounds:
  "0 \<le> DayWithinYear t \<and> DayWithinYear t < DaysInYear (YearFromTime t)"
  using YearFromDay_bounds [of "Day t"] DayFromYear_step [of "YearFromTime t"]
  by (simp add: DayWithinYear_def YearFromTime_def)

lemma month_table:
  assumes "l = 0 \<or> l = 1" "0 \<le> d" "d < 365 + l"
  shows "0 \<le> month_of l d \<and> month_of l d \<le> 11
    \<and> 1 \<le> d - month_start l (month_of l d) + 1
    \<and> d - month_start l (month_of l d) + 1 \<le> days_in_month l (month_of l d)"
  using assms by (auto simp: month_of_def month_start_def days_in_month_def)

lemma InLeapYear_cases: "InLeapYear t = 0 \<or> InLeapYear t = 1"
  by (simp add: InLeapYear_def)

lemma DaysInYear_InLeapYear: "DaysInYear (YearFromTime t) = 365 + InLeapYear t"
  by (simp add: InLeapYear_def DaysInYear_def)

lemma Month_Date_bounds:
  "0 \<le> MonthFromTime t \<and> MonthFromTime t \<le> 11 \<and> 1 \<le> DateFromTime t
   \<and> DateFromTime t \<le> days_in_month (InLeapYear t) (MonthFromTime t)"
  using month_table [OF InLeapYear_cases [of t], of "DayWithinYear t"] DayWithinYear_bounds [of t]
  by (simp add: MonthFromTime_def DateFromTime_def DaysInYear_InLeapYear)

lemma MakeDay_inverse: "MakeDay (YearFromTime t) (MonthFromTime t) (DateFromTime t) = Day t"
  by (simp add: MakeDay_def DateFromTime_def InLeapYear_def DayWithinYear_def MonthFromTime_def)

lemma MakeTime_inverse:
  "MakeTime (HourFromTime t) (MinFromTime t) (SecFromTime t) (msFromTime t) = TimeWithinDay t"
proof -
  define s where "s = t div 1000"
  define m where "m = s div 60"
  have 1: "t mod (1000 * 86400) = 1000 * (s mod 86400) + t mod 1000"
    unfolding s_def by (rule zmod_zmult2_eq) simp
  have 2: "s mod (60 * 1440) = 60 * (m mod 1440) + s mod 60"
    unfolding m_def by (rule zmod_zmult2_eq) simp
  have 3: "m mod (60 * 24) = 60 * (m div 60 mod 24) + m mod 60"
    by (rule zmod_zmult2_eq) simp
  have m': "t div 60000 = m"
    unfolding m_def s_def using zdiv_zmult2_eq [of 60 t 1000] by simp
  have h': "t div 3600000 = m div 60"
    unfolding m' [symmetric] using zdiv_zmult2_eq [of 60 t 60000] by simp
  show ?thesis
    using 1 2 3
    by (simp add: MakeTime_def HourFromTime_def MinFromTime_def SecFromTime_def msFromTime_def
        TimeWithinDay_def msPerDay_def m' h' s_def [symmetric])
qed

lemma MakeDate_inverse: "MakeDate (Day t) (TimeWithinDay t) = t"
  by (simp add: MakeDate_def Day_def TimeWithinDay_def msPerDay_def)

lemma time_field_bounds:
  "0 \<le> HourFromTime t \<and> HourFromTime t \<le> 23 \<and> 0 \<le> MinFromTime t \<and> MinFromTime t \<le> 59
   \<and> 0 \<le> SecFromTime t \<and> SecFromTime t \<le> 59 \<and> 0 \<le> msFromTime t \<and> msFromTime t \<le> 999"
proof -
  have "0 \<le> x mod k \<and> x mod k \<le> k - 1" if "0 < k" for x k :: int
    using that pos_mod_bound [of k x] pos_mod_sign [of k x] by linarith
  from this [of 24] this [of 60] this [of 1000] show ?thesis
    by (simp add: HourFromTime_def MinFromTime_def SecFromTime_def msFromTime_def)
qed

lemma Day_bounds: "valid_time t \<Longrightarrow> - 100000000 \<le> Day t \<and> Day t \<le> 100000000"
proof -
  assume "valid_time t"
  then have t: "- 8640000000000000 \<le> t" "t \<le> 8640000000000000"
    by (simp_all add: valid_time_def)
  have f: "86400000 * (t div 86400000) \<le> t" "t < 86400000 * (t div 86400000) + 86400000"
    by (simp_all add: floor_bounds)
  from t f show ?thesis
    unfolding Day_def msPerDay_def by linarith
qed

lemma YearFromTime_bounds:
  assumes "valid_time t"
  shows "- 271822 \<le> YearFromTime t \<and> YearFromTime t \<le> 275761"
proof -
  define j where "j = YearFromTime t - 1970"
  have y: "YearFromTime t = 1970 + j" "YearFromTime t + 1 = 1970 + (j + 1)"
    by (simp_all add: j_def)
  from YearFromDay_bounds [of "Day t"] have b: "DayFromYear (1970 + j) \<le> Day t" "Day t < DayFromYear (1970 + (j + 1))"
    unfolding YearFromTime_def [symmetric] y by simp_all
  from Day_bounds [OF assms] have d: "- 100000000 \<le> Day t" "Day t \<le> 100000000"
    by simp_all
  define D1 where "D1 = DayFromYear (1970 + (j + 1))"
  have u: "400 * D1 \<le> 146097 * j + 146686"
    using DayFromYear_upper [of "j + 1"] unfolding D1_def by simp
  from b(2) d(1) u have "- 273792 \<le> j"
    unfolding D1_def [symmetric] by linarith
  moreover from b d DayFromYear_lower [of j] have "j \<le> 273791"
    by linarith
  ultimately show ?thesis by (simp add: j_def)
qed

section \<open>Digits written and read\<close>

lemma unat_digit_char: "d < 10 \<Longrightarrow> unat (digit_char d) = 48 + d"
proof -
  assume d: "d < 10"
  have "unat (of_nat (48 + d) :: 16 word) = 48 + d"
    by (rule of_nat_inverse [OF refl]) (use d in simp)
  with d show ?thesis
    unfolding digit_char_def by (simp only: if_True)
qed

lemma digit_value_digit_char: "d < 10 \<Longrightarrow> digit_value (digit_char d) = Some d"
  by (simp add: digit_value_def word_le_nat_alt unat_digit_char)

lemma digit_char_not_sign:
  "d < 10 \<Longrightarrow> digit_char d \<noteq> of_char CHR ''+'' \<and> digit_char d \<noteq> of_char CHR ''-''"
proof -
  assume d: "d < 10"
  have "unat (digit_char d) \<noteq> unat (43 :: 16 word)" "unat (digit_char d) \<noteq> unat (45 :: 16 word)"
    using d by (simp_all add: unat_digit_char)
  then show ?thesis by auto
qed

lemma number_from_append:
  "number_from acc (xs @ ys) = Option.bind (number_from acc xs) (\<lambda>v. number_from v ys)"
  by (induction xs arbitrary: acc) (auto split: option.split)

lemma number_from_digits: "number_from 0 (digits 10 n) = Some n"
proof (induction "10 :: nat" n rule: digits.induct)
  case (1 n)
  show ?case
  proof (cases "n < 10")
    case True
    then show ?thesis
      by (subst digits.simps) (simp add: digit_value_digit_char)
  next
    case False
    with 1 have ih: "number_from 0 (digits 10 (n div 10)) = Some (n div 10)"
      by simp
    have "digits 10 n = digits 10 (n div 10) @ [digit_char (n mod 10)]"
      using False by (subst digits.simps) simp
    then show ?thesis
      by (simp add: number_from_append ih digit_value_digit_char)
  qed
qed

lemma length_digits: "n < 10 ^ w \<Longrightarrow> 0 < w \<Longrightarrow> length (digits 10 n) \<le> w"
proof (induction "10 :: nat" n arbitrary: w rule: digits.induct)
  case (1 n)
  show ?case
  proof (cases "n < 10")
    case True
    then show ?thesis
      using "1.prems" by (subst digits.simps) simp
  next
    case False
    obtain v where w: "w = Suc v"
      using "1.prems"(2) by (cases w) auto
    have v: "0 < v"
    proof (rule ccontr)
      assume "\<not> 0 < v"
      with w "1.prems"(1) False show False by simp
    qed
    have "n div 10 < 10 ^ v"
      using "1.prems"(1) w by (simp add: less_mult_imp_div_less)
    with 1 False v have "length (digits 10 (n div 10)) \<le> v"
      by simp
    moreover have "digits 10 n = digits 10 (n div 10) @ [digit_char (n mod 10)]"
      using False by (subst digits.simps) simp
    ultimately show ?thesis
      by (simp add: w)
  qed
qed

lemma digits_set: "c \<in> set (digits 10 n) \<Longrightarrow> \<exists>d<10. c = digit_char d"
proof (induction "10 :: nat" n rule: digits.induct)
  case (1 n)
  show ?case
  proof (cases "n < 10")
    case True
    with "1.prems" show ?thesis
      by (subst (asm) digits.simps) auto
  next
    case False
    have "digits 10 n = digits 10 (n div 10) @ [digit_char (n mod 10)]"
      using False by (subst digits.simps) simp
    with "1.prems" have "c \<in> set (digits 10 (n div 10)) \<or> c = digit_char (n mod 10)"
      by auto
    then show ?thesis
    proof
      assume "c \<in> set (digits 10 (n div 10))"
      with 1 False show ?thesis by simp
    next
      assume "c = digit_char (n mod 10)"
      then show ?thesis by (intro exI [of _ "n mod 10"]) simp
    qed
  qed
qed

lemma length_pad: "n < 10 ^ w \<Longrightarrow> 0 < w \<Longrightarrow> length (pad w n) = w"
  using length_digits [of n w] by (simp add: pad_def)

lemma number_from_zeros: "number_from 0 (replicate k (of_char CHR ''0'')) = Some 0"
  by (induction k) (simp_all add: digit_value_def)

lemma number_from_pad: "number_from 0 (pad w n) = Some n"
proof -
  have z: "number_from 0 (replicate k (of_char CHR ''0'')) = Some 0" for k
    by (rule number_from_zeros)
  show ?thesis
    unfolding pad_def number_from_append z by (simp add: number_from_digits)
qed

lemma field_pad: "n < 10 ^ w \<Longrightarrow> 0 < w \<Longrightarrow> field w (pad w n @ r) = Some (n, r)"
  by (simp add: field_def length_pad number_from_pad)

lemma expect_Cons [simp]: "expect c (c # r) = Some r"
  by (simp add: expect_def)

lemma pad_first:
  assumes "n < 10 ^ w" "0 < w"
  shows "\<exists>c cs. pad w n = c # cs \<and> c \<noteq> of_char CHR ''+'' \<and> c \<noteq> of_char CHR ''-''"
proof -
  from length_pad [OF assms] assms(2) obtain c cs where p: "pad w n = c # cs"
    by (cases "pad w n") auto
  then have "c \<in> set (pad w n)" by simp
  then have "c = of_char CHR ''0'' \<or> c \<in> set (digits 10 n)"
    by (auto simp: pad_def)
  then have "c \<noteq> of_char CHR ''+'' \<and> c \<noteq> of_char CHR ''-''"
    using digit_char_not_sign by (auto dest!: digits_set)
  with p show ?thesis by blast
qed

lemma year_field_year_string:
  assumes "- 1000000 < y" "y < 1000000"
  shows "year_field (year_string y @ r) = Some (y, r)"
proof (cases "0 \<le> y \<and> y \<le> 9999")
  case True
  then have n: "nat y < 10 ^ 4" by (simp add: nat_less_iff)
  from pad_first [OF n] obtain c cs where p: "pad 4 (nat y) = c # cs"
    and c: "c \<noteq> of_char CHR ''+''" "c \<noteq> of_char CHR ''-''"
    by auto
  have "year_field (pad 4 (nat y) @ r) = map_option (\<lambda>(n, r). (int n, r)) (field 4 (pad 4 (nat y) @ r))"
    using c by (simp add: year_field_def p)
  also have "\<dots> = Some (y, r)"
    using True by (simp add: field_pad [OF n])
  finally show ?thesis
    using True by (simp add: year_string_def)
next
  case False
  show ?thesis
  proof (cases "y < 0")
    case True
    with assms have n: "nat (- y) < 10 ^ 6" "nat (- y) \<noteq> 0"
      by (simp_all add: nat_less_iff)
    from True have "year_string y = of_char CHR ''-'' # pad 6 (nat (- y))"
      by (simp add: year_string_def)
    then show ?thesis
      using True n(2) by (simp add: year_field_def field_pad [OF n(1)])
  next
    case pos: False
    with assms have n: "nat y < 10 ^ 6"
      by (simp add: nat_less_iff)
    from pos False have "year_string y = of_char CHR ''+'' # pad 6 (nat y)"
      by (simp add: year_string_def)
    then show ?thesis
      using pos by (simp add: year_field_def field_pad [OF n])
  qed
qed

section \<open>The ISO text read back\<close>

lemma parse_iso_fields:
  assumes "- 1000000 < y" "y < 1000000" "mo < 100" "d < 100" "h < 100" "mi < 100" "s < 100" "ms < 1000"
  shows "parse_iso (year_string y @ js ''-'' @ pad 2 mo @ js ''-'' @ pad 2 d @ js ''T'' @ pad 2 h
      @ js '':'' @ pad 2 mi @ js '':'' @ pad 2 s @ js ''.'' @ pad 3 ms @ js ''Z'') =
    (if 1 \<le> mo \<and> mo \<le> 12 \<and> 1 \<le> d
        \<and> int d \<le> days_in_month (if DaysInYear y = 366 then 1 else 0) (int mo - 1)
        \<and> h \<le> 23 \<and> mi \<le> 59 \<and> s \<le> 59
     then TimeClip (MakeDate (MakeDay y (int mo - 1) (int d)) (MakeTime (int h) (int mi) (int s) (int ms)))
     else None)"
proof -
  have f2: "field 2 (pad 2 n @ r) = Some (n, r)" if "n < 100" for n r
    using that by (simp add: field_pad)
  have f3: "field 3 (pad 3 n @ r) = Some (n, r)" if "n < 1000" for n r
    using that by (simp add: field_pad)
  show ?thesis
    unfolding parse_iso_def
    by (simp add: year_field_year_string [OF assms(1,2)] f2 f3 assms)
qed

lemma parse_iso_toISOString:
  assumes "valid_time t"
  shows "parse_iso (toISOString t) = Some t"
proof -
  from YearFromTime_bounds [OF assms] have y: "- 1000000 < YearFromTime t" "YearFromTime t < 1000000"
    by simp_all
  from Month_Date_bounds [of t] have md: "0 \<le> MonthFromTime t" "MonthFromTime t \<le> 11"
    "1 \<le> DateFromTime t" "DateFromTime t \<le> days_in_month (InLeapYear t) (MonthFromTime t)"
    by blast+
  from time_field_bounds [of t] have tf: "0 \<le> HourFromTime t" "HourFromTime t \<le> 23"
    "0 \<le> MinFromTime t" "MinFromTime t \<le> 59" "0 \<le> SecFromTime t" "SecFromTime t \<le> 59"
    "0 \<le> msFromTime t" "msFromTime t \<le> 999"
    by blast+
  have dm: "days_in_month (InLeapYear t) (MonthFromTime t) \<le> 31"
    by (simp add: days_in_month_def InLeapYear_def)
  have mo: "nat (MonthFromTime t + 1) < 100" and d: "nat (DateFromTime t) < 100"
    and h: "nat (HourFromTime t) < 100" and mi: "nat (MinFromTime t) < 100"
    and s: "nat (SecFromTime t) < 100" and ms: "nat (msFromTime t) < 1000"
    using md tf dm by linarith+
  have c: "1 \<le> nat (MonthFromTime t + 1)" "nat (MonthFromTime t + 1) \<le> 12" "1 \<le> nat (DateFromTime t)"
    "int (nat (DateFromTime t)) \<le> days_in_month (if DaysInYear (YearFromTime t) = 366 then 1 else 0)
        (int (nat (MonthFromTime t + 1)) - 1)"
    "nat (HourFromTime t) \<le> 23" "nat (MinFromTime t) \<le> 59" "nat (SecFromTime t) \<le> 59"
    using md tf by (simp_all add: InLeapYear_def)
  have i: "int (nat (MonthFromTime t + 1)) - 1 = MonthFromTime t" "int (nat (DateFromTime t)) = DateFromTime t"
    "int (nat (HourFromTime t)) = HourFromTime t" "int (nat (MinFromTime t)) = MinFromTime t"
    "int (nat (SecFromTime t)) = SecFromTime t" "int (nat (msFromTime t)) = msFromTime t"
    using md tf by simp_all
  have "parse_iso (toISOString t) =
      TimeClip (MakeDate (MakeDay (YearFromTime t) (MonthFromTime t) (DateFromTime t))
        (MakeTime (HourFromTime t) (MinFromTime t) (SecFromTime t) (msFromTime t)))"
    unfolding toISOString_def parse_iso_fields [OF y mo d h mi s ms]
    using c by (simp only: i if_True simp_thms)
  also have "\<dots> = Some t"
    using assms by (simp only: MakeDay_inverse MakeTime_inverse MakeDate_inverse TimeClip_def if_True)
  finally show ?thesis .
qed

lemma text_is_iso_macro:
  "js ''{{__time_from:date:iso}}'' = macro [] (js ''time_from'') (Some (js ''iso'')) [] @ []"
  by (simp add: macro_def spec_suffix_def)

lemma expand_iso:
  "replaceCustomFunctions fmt (js ''{{__time_from:date:iso}}'') (Some tr) = Inr (toISOString (from tr))"
  unfolding text_is_iso_macro
  by (subst expand_macro)
    (simp_all add: spaces_def selector_name_def well_formed_spec_def spec_text_def spec_char_def
      is_space_def replacer_def replaceCustomFunctions_Nil)

lemma toISOString_2021: "toISOString 1609459200000 = js ''2021-01-01T00:00:00.000Z''"
  by (simp add: date_defs)

section \<open>The timestamp of the identifier\<close>

lemma digits_16_exact:
  "16 ^ w \<le> n \<Longrightarrow> n < 16 ^ Suc w \<Longrightarrow>
     digits 16 n = map (\<lambda>i. digit_char ((n div 16 ^ (w - i)) mod 16)) [0..<Suc w]"
proof (induction w arbitrary: n)
  case 0
  then show ?case
    by (subst digits.simps) simp
next
  case (Suc w)
  from Suc.prems have ge: "\<not> (n < 16 \<or> (16::nat) < 2)"
    by (simp add: not_less) (metis le_trans mult.right_neutral mult_le_mono2 one_le_numeral one_le_power)
  have lo: "16 ^ w \<le> n div 16"
    using Suc.prems(1) by (simp add: less_eq_div_iff_mult_less_eq mult.commute)
  have hi: "n div 16 < 16 ^ Suc w"
    using Suc.prems(2) by (simp add: less_mult_imp_div_less)
  have d: "n div 16 div 16 ^ (w - i) = n div 16 ^ (Suc w - i)" if "i \<le> w" for i
    using that by (simp add: div_mult2_eq [symmetric] Suc_diff_le)
  have "digits 16 n = digits 16 (n div 16) @ [digit_char (n mod 16)]"
    using ge by (subst digits.simps) simp
  also have "digits 16 (n div 16) = map (\<lambda>i. digit_char ((n div 16 div 16 ^ (w - i)) mod 16)) [0..<Suc w]"
    by (rule Suc.IH [OF lo hi])
  also have "\<dots> = map (\<lambda>i. digit_char ((n div 16 ^ (Suc w - i)) mod 16)) [0..<Suc w]"
  proof (rule map_cong [OF refl])
    fix i assume "i \<in> set [0..<Suc w]"
    then have "i \<le> w" by auto
    from d [OF this] show "digit_char (n div 16 div 16 ^ (w - i) mod 16) = digit_char (n div 16 ^ (Suc w - i) mod 16)"
      by (simp only:)
  qed
  finally show ?case
    by simp
qed

lemma digits_16_hex32: "2 ^ 28 \<le> n \<Longrightarrow> n < 2 ^ 32 \<Longrightarrow> digits 16 n = hex32 n"
  using digits_16_exact [of 7 n] by (simp add: hex32_def)

text \<open>Where the seconds have eight hexadecimal digits, from 1978-07-04 to 2106-02-07, the
  identifier is what an object identifier is: the timestamp and sixteen zeros, 24
  characters.\<close>

lemma timeToObjectId_in_range:
  assumes "2 ^ 28 \<le> time div 1000" "time div 1000 < 2 ^ 32"
  shows "timeToObjectId time = hex32 (nat (time div 1000)) @ replicate 16 (of_char CHR ''0'')"
    and "length (timeToObjectId time) = 24"
proof -
  have "digits 16 (nat (time div 1000)) = hex32 (nat (time div 1000))"
    using assms by (intro digits_16_hex32) (simp_all add: le_nat_iff nat_less_iff)
  then show "timeToObjectId time = hex32 (nat (time div 1000)) @ replicate 16 (of_char CHR ''0'')"
    using assms(1) by (simp add: timeToObjectId_def toString_def replicate_numeral)
  then show "length (timeToObjectId time) = 24"
    by (simp add: hex32_def)
qed

lemma digits_16_2106: "digits 16 4294967296 = js ''100000000''"
  by (simp add: digits.simps digit_char_def)

section \<open>The claims about the time macros\<close>

text \<open>
  C7. Wherever the scan of a text stands at a place that begins like a macro (the braces,
  white space, the marker and a selector) and does not go on with \<open>:date\<close>, the expression
  does not match there; the scan copies these characters as they are and goes on behind
  them, so they stand in the output between what was produced before and what the rest
  gives, and no exception comes of them. Where no brace opens in the text that follows,
  the rest comes back unchanged as well.
\<close>

theorem malformed_macro_left_unchanged:
  assumes "scan_to fmt tr text n = Some pre"
    and "drop n text = js ''{{'' @ w @ js ''__'' @ sel @ s"
    and "spaces w" "selector_name sel" "\<not> starts_with (js '':date'') s"
  shows "exec customFuncRegex (drop n text) = None
    \<and> replaceCustomFunctions fmt text tr =
        continue pre (js ''{{'' @ w @ js ''__'' @ sel) (replaceCustomFunctions fmt s tr)
    \<and> (list_all (\<lambda>c. c \<noteq> of_char CHR ''{'') s \<longrightarrow>
        replaceCustomFunctions fmt text tr = continue pre (js ''{{'' @ w @ js ''__'' @ sel @ s) (Inr []))"
proof -
  have n: "macro_at (js ''{{'' @ w @ js ''__'' @ sel @ s) = None"
    by (rule macro_at_no_date [OF assms(3-5)])
  have sc: "replaceCustomFunctions fmt (js ''{{'' @ w @ js ''__'' @ sel @ s) tr =
      prepend (js ''{{'' @ w @ js ''__'' @ sel) (replaceCustomFunctions fmt s tr)"
    by (rule opening_scan [OF assms(3,4) n])
  have r: "replaceCustomFunctions fmt text tr =
      continue pre (js ''{{'' @ w @ js ''__'' @ sel) (replaceCustomFunctions fmt s tr)"
    using scan_to_replace [OF assms(1)] by (simp only: assms(2) sc continue_Nil_prepend)
  have "continue pre (js ''{{'' @ w @ js ''__'' @ sel) (Inr s) = continue pre (js ''{{'' @ w @ js ''__'' @ sel @ s) (Inr [])"
    by (cases pre) simp_all
  with n r show ?thesis
    by (simp add: exec_customFuncRegex assms(2) replaceCustomFunctions_plain list_all_iff)
qed

theorem malformed_macro_left_unchanged_witness:
  "scan_to (\<lambda>_ _. Inl RangeError) (Some \<lparr>from = 0, to = 5000\<rparr>) (js ''{{__time_to:date:seconds}} {{ __time_from}}'') 27 =
     Some (Inr (js ''5 ''))
   \<and> drop 27 (js ''{{__time_to:date:seconds}} {{ __time_from}}'') = js ''{{'' @ js '' '' @ js ''__'' @ js ''time_from'' @ js ''}}''
   \<and> spaces (js '' '') \<and> selector_name (js ''time_from'') \<and> \<not> starts_with (js '':date'') (js ''}}'')
   \<and> list_all (\<lambda>c. c \<noteq> of_char CHR ''{'') (js ''}}'')
   \<and> exec customFuncRegex (js ''{{ __time_from}}'') = None
   \<and> replaceCustomFunctions (\<lambda>_ _. Inl RangeError) (js ''{{__time_to:date:seconds}} {{ __time_from}}'')
        (Some \<lparr>from = 0, to = 5000\<rparr>) = Inr (js ''5 {{ __time_from}}'')"
proof -
  have d: "drop 27 (js ''{{__time_to:date:seconds}} {{ __time_from}}'') =
      js ''{{'' @ js '' '' @ js ''__'' @ js ''time_from'' @ js ''}}''"
    by simp
  have h: "spaces (js '' '')" "selector_name (js ''time_from'')" "\<not> starts_with (js '':date'') (js ''}}'')"
    by (simp_all add: spaces_def selector_name_def starts_with_def is_space_def)
  note s = scan_example [of "\<lambda>_ _. Inl RangeError"]
  from malformed_macro_left_unchanged [OF s d h] d h s
  show ?thesis
    by (simp add: replaceCustomFunctions_plain)
qed

text \<open>
  C10. Wherever the scan of a text stands at a macro whose specifier colon is followed by
  no specifier character (white space at most, then the closing braces), the expression
  does not match there; the scan copies the macro as it is, where the macro without the
  colon would have given the ISO text.
\<close>

theorem empty_specifier_not_matched:
  assumes "scan_to fmt tr text n = Some pre"
    and "drop n text = js ''{{'' @ w1 @ js ''__'' @ sel @ js '':date:'' @ w2 @ js ''}}'' @ r"
    and "spaces w1" "selector_name sel" "spaces w2"
  shows "exec customFuncRegex (drop n text) = None
    \<and> replaceCustomFunctions fmt text tr =
        continue pre (js ''{{'' @ w1 @ js ''__'' @ sel @ js '':date:'' @ w2 @ js ''}}'')
          (replaceCustomFunctions fmt r tr)"
  using macro_at_empty_spec [OF assms(3-5), of r] scan_to_replace [OF assms(1)]
  by (simp only: assms(2) exec_customFuncRegex empty_spec_scan [OF assms(3-5)] continue_Nil_prepend simp_thms)

theorem empty_specifier_not_matched_witness:
  "scan_to (\<lambda>_ _. Inl RangeError) (Some \<lparr>from = 0, to = 0\<rparr>) (js ''{{__time_from:date:}}'') 0 = Some (Inr [])
   \<and> spaces [] \<and> selector_name (js ''time_from'')
   \<and> exec customFuncRegex (js ''{{__time_from:date:}}'') = None
   \<and> replaceCustomFunctions (\<lambda>_ _. Inl RangeError) (js ''{{__time_from:date:}}'') (Some \<lparr>from = 0, to = 0\<rparr>) =
       Inr (js ''{{__time_from:date:}}'')"
proof -
  have d: "drop 0 (js ''{{__time_from:date:}}'') = js ''{{'' @ [] @ js ''__'' @ js ''time_from'' @ js '':date:'' @ [] @ js ''}}'' @ []"
    by simp
  have h: "spaces []" "selector_name (js ''time_from'')"
    by (simp_all add: spaces_def selector_name_def)
  from empty_specifier_not_matched [OF scan_to_0 d h(1,2,1), of "\<lambda>_ _. Inl RangeError" "Some \<lparr>from = 0, to = 0\<rparr>"] h
  show ?thesis
    by (simp add: scan_to_0 replaceCustomFunctions_Nil)
qed

text \<open>
  C3. With \<open>from\<close> at 2021-01-01T00:00:00.000Z (1609459200 seconds after the epoch) the
  text \<open>{{__time_from:date:toObjectId}}\<close> expands to the 24 characters
  \<open>5fee66000000000000000000\<close>.
\<close>

theorem toObjectId_2021:
  "replaceCustomFunctions fmt (js ''{{__time_from:date:toObjectId}}'') (Some \<lparr>from = 1609459200000, to = t\<rparr>) =
     Inr (js ''5fee66000000000000000000'')
   \<and> length (js ''5fee66000000000000000000'') = 24"
  by (simp only: expand_toObjectId) (simp add: timeToObjectId_def toString_def digits_16_2021)

text \<open>
  C1. The identifier is the seconds in hexadecimal, as long as the number is, followed by
  sixteen zeros. At the epoch itself the seconds are \<open>0\<close>, one digit, and the macro
  expands to 17 characters; at 2106-02-07T06:28:16Z the seconds are \<open>2 ^ 32\<close>, nine
  digits, and it expands to 25. Neither is the 24 characters of an object identifier.
\<close>

theorem toObjectId_not_24:
  "replaceCustomFunctions fmt (js ''{{__time_from:date:toObjectId}}'') (Some \<lparr>from = 0, to = t\<rparr>) =
     Inr (js ''00000000000000000'')
   \<and> length (js ''00000000000000000'') = 17
   \<and> replaceCustomFunctions fmt (js ''{{__time_from:date:toObjectId}}'') (Some \<lparr>from = 4294967296000, to = t\<rparr>) =
     Inr (js ''1000000000000000000000000'')
   \<and> length (js ''1000000000000000000000000'') = 25"
  by (simp only: expand_toObjectId) (simp add: timeToObjectId_def toString_def digits_16_0 digits_16_2106)

text \<open>
  C8, as the claim states it: white space between the tokens. With a space between the
  selector and \<open>:date\<close> the macro is no longer matched and the text stays, where the
  macro without the space expands to the ISO text.
\<close>

theorem whitespace_between_tokens_counterexample:
  "replaceCustomFunctions (\<lambda>_ _. Inl RangeError) (js ''{{__time_from :date}}'') (Some \<lparr>from = 0, to = 0\<rparr>) =
     Inr (js ''{{__time_from :date}}'')
   \<and> replaceCustomFunctions (\<lambda>_ _. Inl RangeError) (js ''{{__time_from:date}}'') (Some \<lparr>from = 0, to = 0\<rparr>) =
     Inr (js ''1970-01-01T00:00:00.000Z'')
   \<and> replaceCustomFunctions (\<lambda>_ _. Inl RangeError) (js ''{{__time_from :date}}'') (Some \<lparr>from = 0, to = 0\<rparr>) \<noteq>
     replaceCustomFunctions (\<lambda>_ _. Inl RangeError) (js ''{{__time_from:date}}'') (Some \<lparr>from = 0, to = 0\<rparr>)"
proof -
  have m: "macro_at (js ''{{'' @ [] @ js ''__'' @ js ''time_from'' @ js '' :date}}'') = None"
    by (rule macro_at_no_date) (simp_all add: spaces_def selector_name_def starts_with_def)
  have "replaceCustomFunctions (\<lambda>_ _. Inl RangeError) (js ''{{'' @ [] @ js ''__'' @ js ''time_from'' @ js '' :date}}'')
      (Some \<lparr>from = 0, to = 0\<rparr>) =
      prepend (js ''{{'' @ [] @ js ''__'' @ js ''time_from'')
        (replaceCustomFunctions (\<lambda>_ _. Inl RangeError) (js '' :date}}'') (Some \<lparr>from = 0, to = 0\<rparr>))"
    by (rule opening_scan [OF _ _ m]) (simp_all add: spaces_def selector_name_def)
  then have 1: "replaceCustomFunctions (\<lambda>_ _. Inl RangeError) (js ''{{__time_from :date}}'') (Some \<lparr>from = 0, to = 0\<rparr>) =
     Inr (js ''{{__time_from :date}}'')"
    by (simp add: replaceCustomFunctions_plain)
  have 2: "replaceCustomFunctions (\<lambda>_ _. Inl RangeError) (js ''{{__time_from:date}}'') (Some \<lparr>from = 0, to = 0\<rparr>) =
     Inr (js ''1970-01-01T00:00:00.000Z'')"
    by (simp only: expand_default) (simp add: toISOString_epoch)
  show ?thesis
    unfolding 1 2 by simp
qed

text \<open>
  C8, amended: white space directly behind the opening braces and directly before the
  closing braces changes nothing: the macro is matched and expands as the macro without
  it does, whatever text follows. White space between the tokens (before \<open>:date\<close>,
  before the specifier's colon, behind it) leaves no match.
\<close>

theorem whitespace_at_braces_ignored:
  assumes "spaces w1" "selector_name sel" "well_formed_spec spec" "spaces w2"
  shows "replaceCustomFunctions fmt (macro w1 sel spec w2 @ r) tr =
         replaceCustomFunctions fmt (macro [] sel spec [] @ r) tr
    \<and> (spaces w \<and> w \<noteq> [] \<longrightarrow>
         exec customFuncRegex (js ''{{'' @ w1 @ js ''__'' @ sel @ w @ js '':date'' @ spec_suffix spec @ w2 @ js ''}}'' @ r) = None
       \<and> exec customFuncRegex (js ''{{'' @ w1 @ js ''__'' @ sel @ js '':date'' @ w @ js '':'' @ sp @ w2 @ js ''}}'' @ r) = None
       \<and> exec customFuncRegex (js ''{{'' @ w1 @ js ''__'' @ sel @ js '':date'' @ js '':'' @ w @ sp @ w2 @ js ''}}'' @ r) = None)"
proof -
  have e: "spaces []"
    by (simp add: spaces_def)
  have 1: "replaceCustomFunctions fmt (macro w1 sel spec w2 @ r) tr =
         replaceCustomFunctions fmt (macro [] sel spec [] @ r) tr"
    by (simp only: expand_macro [OF assms] expand_macro [OF e assms(2,3) e])
  have 2: "macro_at (js ''{{'' @ w1 @ js ''__'' @ sel @ w @ js '':date'' @ spec_suffix spec @ w2 @ js ''}}'' @ r) = None"
    if "spaces w" "w \<noteq> []"
    by (rule macro_at_no_date [OF assms(1,2) not_starts_with_space [OF that]])
  have 3: "macro_at (js ''{{'' @ w1 @ js ''__'' @ sel @ js '':date'' @ w @ js '':'' @ sp @ w2 @ js ''}}'' @ r) = None"
    if "spaces w" "w \<noteq> []"
    by (rule macro_at_after_date [OF assms(1,2) specifier_space_colon [OF that]])
  have 4: "macro_at (js ''{{'' @ w1 @ js ''__'' @ sel @ js '':date'' @ js '':'' @ w @ sp @ w2 @ js ''}}'' @ r) = None"
    if "spaces w" "w \<noteq> []"
    by (rule macro_at_after_date [OF assms(1,2) specifier_colon_space [OF that]])
  from 1 2 3 4 show ?thesis
    by (simp only: exec_customFuncRegex) blast
qed

theorem whitespace_at_braces_ignored_witness:
  "spaces (js '' '') \<and> selector_name (js ''time_to'') \<and> well_formed_spec (Some (js ''seconds'')) \<and> spaces (js ''  '')
   \<and> js '' '' \<noteq> []
   \<and> replaceCustomFunctions (\<lambda>_ _. Inl RangeError) (js ''{{ __time_to:date:seconds  }} x'') (Some \<lparr>from = 0, to = 5000\<rparr>) =
       replaceCustomFunctions (\<lambda>_ _. Inl RangeError) (js ''{{__time_to:date:seconds}} x'') (Some \<lparr>from = 0, to = 5000\<rparr>)
   \<and> exec customFuncRegex (js ''{{ __time_to :date:seconds  }} x'') = None
   \<and> exec customFuncRegex (js ''{{ __time_to:date :seconds  }} x'') = None
   \<and> exec customFuncRegex (js ''{{ __time_to:date: seconds  }} x'') = None"
  using whitespace_at_braces_ignored [of "js '' ''" "js ''time_to''" "Some (js ''seconds'')" "js ''  ''"
      "\<lambda>_ _. Inl RangeError" "js '' x''" "Some \<lparr>from = 0, to = 5000\<rparr>" "js '' ''" "js ''seconds''"]
  by (simp add: spaces_def selector_name_def well_formed_spec_def spec_text_def spec_char_def is_space_def
      macro_def spec_suffix_def)

section \<open>The claims about the variable query and the template variables\<close>



text \<open>
  C2, as the claim states it: the first response alone. Two streams that begin with the
  same response, a frame with the value 7: the one that completes after it gives the list
  of that frame, the one that goes on to a response with an error descriptor fails with
  the descriptor's message, and the one that emits it and never completes leaves the
  operation pending.
\<close>

theorem first_emission_counterexample:
  "metricFindQuery (\<lambda>s _ _. s) (\<lambda>_ _. Inl RangeError)
      (\<lambda>_ :: (unit, unit, unit) DataQueryRequest. Completes [\<lparr>error = None, data = Some [7 :: nat]\<rparr>])
      (\<lambda>frame. [frame])
      \<lparr>vq_database = Some (js ''db''), vq_collection = Some (js ''c''), fieldName = js ''f'',
        fieldType = js ''string'', vq_aggregation = Some (js ''[]'')\<rparr> None
     = Resolved [7]
   \<and> metricFindQuery (\<lambda>s _ _. s) (\<lambda>_ _. Inl RangeError)
      (\<lambda>_ :: (unit, unit, unit) DataQueryRequest. Completes [\<lparr>error = None, data = Some [7 :: nat]\<rparr>,
          \<lparr>error = Some \<lparr>message = Some (js ''boom'')\<rparr>, data = None\<rparr>])
      (\<lambda>frame. [frame])
      \<lparr>vq_database = Some (js ''db''), vq_collection = Some (js ''c''), fieldName = js ''f'',
        fieldType = js ''string'', vq_aggregation = Some (js ''[]'')\<rparr> None
     = Rejected (Error (js ''boom''))
   \<and> metricFindQuery (\<lambda>s _ _. s) (\<lambda>_ _. Inl RangeError)
      (\<lambda>_ :: (unit, unit, unit) DataQueryRequest. Pending [\<lparr>error = None, data = Some [7 :: nat]\<rparr>])
      (\<lambda>frame. [frame])
      \<lparr>vq_database = Some (js ''db''), vq_collection = Some (js ''c''), fieldName = js ''f'',
        fieldType = js ''string'', vq_aggregation = Some (js ''[]'')\<rparr> None
     = Unsettled"
  by (simp only: metricFindQuery_stream [OF query_vq0]) (simp add: on_response_def)

text \<open>
  C2, amended: the last response alone. The operation settles when the stream ends: with
  what the last response gives where the stream completes, whatever was emitted before
  it; with \<open>EmptyError\<close> where it completes having emitted nothing; with the stream's own
  failure where it fails; and not at all where the stream does not end.
\<close>

theorem metricFindQuery_last_emission:
  assumes "query replace fmt superQuery (dataQuery vq options) = Inr stream"
  shows "(stream = Completes (rs @ [rsp]) \<longrightarrow>
            metricFindQuery replace fmt superQuery frameToMetricFindValue vq options =
              settle (on_response frameToMetricFindValue rsp))
    \<and> (stream = Completes [] \<longrightarrow>
            metricFindQuery replace fmt superQuery frameToMetricFindValue vq options = Rejected EmptyError)
    \<and> (stream = Fails rs e \<longrightarrow>
            metricFindQuery replace fmt superQuery frameToMetricFindValue vq options = Rejected e)
    \<and> (stream = Pending rs \<longrightarrow>
            metricFindQuery replace fmt superQuery frameToMetricFindValue vq options = Unsettled)"
  by (simp add: metricFindQuery_stream [OF assms])

theorem metricFindQuery_last_emission_witness:
  "query (\<lambda>s _ _. s) (\<lambda>_ _. Inl RangeError)
      (\<lambda>_ :: (unit, unit, unit) DataQueryRequest. Completes ([\<lparr>error = Some \<lparr>message = Some (js ''boom'')\<rparr>, data = None\<rparr>]
          @ [\<lparr>error = None, data = Some [7 :: nat]\<rparr>]))
      (dataQuery \<lparr>vq_database = Some (js ''db''), vq_collection = Some (js ''c''), fieldName = js ''f'',
        fieldType = js ''string'', vq_aggregation = Some (js ''[]'')\<rparr> None)
     = Inr (Completes ([\<lparr>error = Some \<lparr>message = Some (js ''boom'')\<rparr>, data = None\<rparr>]
          @ [\<lparr>error = None, data = Some [7 :: nat]\<rparr>]))
   \<and> metricFindQuery (\<lambda>s _ _. s) (\<lambda>_ _. Inl RangeError)
      (\<lambda>_ :: (unit, unit, unit) DataQueryRequest. Completes ([\<lparr>error = Some \<lparr>message = Some (js ''boom'')\<rparr>, data = None\<rparr>]
          @ [\<lparr>error = None, data = Some [7 :: nat]\<rparr>]))
      (\<lambda>frame. [frame])
      \<lparr>vq_database = Some (js ''db''), vq_collection = Some (js ''c''), fieldName = js ''f'',
        fieldType = js ''string'', vq_aggregation = Some (js ''[]'')\<rparr> None
     = Resolved [7]"
proof -
  let ?stream = "Completes ([\<lparr>error = Some \<lparr>message = Some (js ''boom'')\<rparr>, data = None\<rparr>]
          @ [\<lparr>error = None, data = Some [7 :: nat]\<rparr>])"
  have q: "query (\<lambda>s _ _. s) (\<lambda>_ _. Inl RangeError) (\<lambda>_ :: (unit, unit, unit) DataQueryRequest. ?stream)
      (dataQuery \<lparr>vq_database = Some (js ''db''), vq_collection = Some (js ''c''), fieldName = js ''f'',
        fieldType = js ''string'', vq_aggregation = Some (js ''[]'')\<rparr> None) = Inr ?stream"
    by (rule query_vq0)
  from metricFindQuery_last_emission [where rs = "[\<lparr>error = Some \<lparr>message = Some (js ''boom'')\<rparr>, data = None\<rparr>]"
      and rsp = "\<lparr>error = None, data = Some [7 :: nat]\<rparr>" and frameToMetricFindValue = "\<lambda>frame. [frame]", OF q]
  have "metricFindQuery (\<lambda>s _ _. s) (\<lambda>_ _. Inl RangeError) (\<lambda>_ :: (unit, unit, unit) DataQueryRequest. ?stream)
      (\<lambda>frame. [frame])
      \<lparr>vq_database = Some (js ''db''), vq_collection = Some (js ''c''), fieldName = js ''f'',
        fieldType = js ''string'', vq_aggregation = Some (js ''[]'')\<rparr> None
     = settle (on_response (\<lambda>frame. [frame]) \<lparr>error = None, data = Some [7 :: nat]\<rparr>)"
    by blast
  then show ?thesis
    using q by (simp add: on_response_def)
qed

text \<open>
  C5, as the claim states it: every response of the backend. A response with an error
  descriptor that is followed by a response with a frame does not make the operation
  fail: it gives the list of that frame. A response with no error descriptor and no frame
  that is followed by a response with an error descriptor does not make the operation
  succeed with the empty list: it fails with the descriptor's message. And a response of
  either kind on a stream that never completes leaves the operation pending.
\<close>

theorem response_alone_counterexample:
  "metricFindQuery (\<lambda>s _ _. s) (\<lambda>_ _. Inl RangeError)
      (\<lambda>_ :: (unit, unit, unit) DataQueryRequest. Completes [\<lparr>error = Some \<lparr>message = Some (js ''boom'')\<rparr>, data = None\<rparr>,
          \<lparr>error = None, data = Some [7 :: nat]\<rparr>])
      (\<lambda>frame. [frame])
      \<lparr>vq_database = Some (js ''db''), vq_collection = Some (js ''c''), fieldName = js ''f'',
        fieldType = js ''string'', vq_aggregation = Some (js ''[]'')\<rparr> None
     = Resolved [7]
   \<and> metricFindQuery (\<lambda>s _ _. s) (\<lambda>_ _. Inl RangeError)
      (\<lambda>_ :: (unit, unit, unit) DataQueryRequest. Completes [\<lparr>error = None, data = Some ([] :: nat list)\<rparr>,
          \<lparr>error = Some \<lparr>message = Some (js ''boom'')\<rparr>, data = None\<rparr>])
      (\<lambda>frame. [frame])
      \<lparr>vq_database = Some (js ''db''), vq_collection = Some (js ''c''), fieldName = js ''f'',
        fieldType = js ''string'', vq_aggregation = Some (js ''[]'')\<rparr> None
     = Rejected (Error (js ''boom''))
   \<and> metricFindQuery (\<lambda>s _ _. s) (\<lambda>_ _. Inl RangeError)
      (\<lambda>_ :: (unit, unit, unit) DataQueryRequest. Pending [\<lparr>error = None, data = Some ([] :: nat list)\<rparr>])
      (\<lambda>frame. [frame])
      \<lparr>vq_database = Some (js ''db''), vq_collection = Some (js ''c''), fieldName = js ''f'',
        fieldType = js ''string'', vq_aggregation = Some (js ''[]'')\<rparr> None
     = Unsettled
   \<and> metricFindQuery (\<lambda>s _ _. s) (\<lambda>_ _. Inl RangeError)
      (\<lambda>_ :: (unit, unit, unit) DataQueryRequest. Pending [\<lparr>error = Some \<lparr>message = Some (js ''boom'')\<rparr>,
          data = (None :: nat list option)\<rparr>])
      (\<lambda>frame. [frame])
      \<lparr>vq_database = Some (js ''db''), vq_collection = Some (js ''c''), fieldName = js ''f'',
        fieldType = js ''string'', vq_aggregation = Some (js ''[]'')\<rparr> None
     = Unsettled"
  by (simp only: metricFindQuery_stream [OF query_vq0]) (simp add: on_response_def)

text \<open>
  C5, amended: the last response of a stream that completes. Where the stream completes
  and its last response has no error descriptor and no frame (an empty list of frames,
  or none), the operation succeeds with the empty list; where that response has an error
  descriptor, the operation fails with an \<open>Error\<close> whose message is the descriptor's (the
  empty text where the descriptor has none).
\<close>

theorem empty_result_and_backend_error:
  assumes "query replace fmt superQuery (dataQuery vq options) = Inr (Completes (rs @ [rsp]))"
  shows "(error rsp = None \<and> (data rsp = None \<or> data rsp = Some []) \<longrightarrow>
            metricFindQuery replace fmt superQuery frameToMetricFindValue vq options = Resolved [])
    \<and> (error rsp = Some \<lparr>message = Some m\<rparr> \<longrightarrow>
            metricFindQuery replace fmt superQuery frameToMetricFindValue vq options = Rejected (Error m))
    \<and> (error rsp = Some \<lparr>message = None\<rparr> \<longrightarrow>
            metricFindQuery replace fmt superQuery frameToMetricFindValue vq options = Rejected (Error []))"
  by (auto simp add: metricFindQuery_stream [OF assms] on_response_def)

theorem empty_result_and_backend_error_witness:
  "metricFindQuery (\<lambda>s _ _. s) (\<lambda>_ _. Inl RangeError)
      (\<lambda>_ :: (unit, unit, unit) DataQueryRequest. Completes ([] @ [\<lparr>error = None, data = Some ([] :: nat list)\<rparr>]))
      (\<lambda>frame. [frame])
      \<lparr>vq_database = Some (js ''db''), vq_collection = Some (js ''c''), fieldName = js ''f'',
        fieldType = js ''string'', vq_aggregation = Some (js ''[]'')\<rparr> None
     = Resolved []
   \<and> metricFindQuery (\<lambda>s _ _. s) (\<lambda>_ _. Inl RangeError)
      (\<lambda>_ :: (unit, unit, unit) DataQueryRequest. Completes ([] @ [\<lparr>error = Some \<lparr>message = Some (js ''boom'')\<rparr>,
          data = Some ([] :: nat list)\<rparr>]))
      (\<lambda>frame. [frame])
      \<lparr>vq_database = Some (js ''db''), vq_collection = Some (js ''c''), fieldName = js ''f'',
        fieldType = js ''string'', vq_aggregation = Some (js ''[]'')\<rparr> None
     = Rejected (Error (js ''boom''))"
proof -
  let ?ok = "\<lparr>error = None, data = Some ([] :: nat list)\<rparr>"
  let ?bad = "\<lparr>error = Some \<lparr>message = Some (js ''boom'')\<rparr>, data = Some ([] :: nat list)\<rparr>"
  let ?vq = "\<lparr>vq_database = Some (js ''db''), vq_collection = Some (js ''c''), fieldName = js ''f'',
        fieldType = js ''string'', vq_aggregation = Some (js ''[]'')\<rparr>"
  have q: "query (\<lambda>s _ _. s) (\<lambda>_ _. Inl RangeError) (\<lambda>_ :: (unit, unit, unit) DataQueryRequest. Completes ([] @ [r]))
      (dataQuery ?vq None) = Inr (Completes ([] @ [r]))" for r :: "nat DataQueryResponse"
    by (rule query_vq0)
  from empty_result_and_backend_error [OF q [of ?ok], where frameToMetricFindValue = "\<lambda>frame. [frame]"]
  have 1: "metricFindQuery (\<lambda>s _ _. s) (\<lambda>_ _. Inl RangeError)
      (\<lambda>_ :: (unit, unit, unit) DataQueryRequest. Completes ([] @ [?ok])) (\<lambda>frame. [frame]) ?vq None = Resolved []"
    by simp
  from empty_result_and_backend_error [OF q [of ?bad], where frameToMetricFindValue = "\<lambda>frame. [frame]"
      and m = "js ''boom''"]
  have 2: "metricFindQuery (\<lambda>s _ _. s) (\<lambda>_ _. Inl RangeError)
      (\<lambda>_ :: (unit, unit, unit) DataQueryRequest. Completes ([] @ [?bad])) (\<lambda>frame. [frame]) ?vq None =
      Rejected (Error (js ''boom''))"
    by simp
  from 1 2 show ?thesis by blast
qed

text \<open>
  C6. The result of \<open>applyTemplateVariables\<close> is a new object: the store keeps every
  object it had, the input among them, as it was. The result has the fields of the input,
  each with the input's value, but \<open>database\<close>, \<open>collection\<close> and \<open>aggregation\<close>; of
  these, one that is absent or empty in the input is the empty text in the result.
\<close>

theorem applyTemplateVariables_frame:
  "(a < length h \<longrightarrow>
      applyTemplateVariables_at replace h a sv =
        Some (length h, h @ [applyTemplateVariables replace (h ! a) sv])
      \<and> take (length h) (snd (the (applyTemplateVariables_at replace h a sv))) = h)
   \<and> refId (applyTemplateVariables replace q sv) = refId q
   \<and> queryType (applyTemplateVariables replace q sv) = queryType q
   \<and> timestampField (applyTemplateVariables replace q sv) = timestampField q
   \<and> timestampFormat (applyTemplateVariables replace q sv) = timestampFormat q
   \<and> labelFields (applyTemplateVariables replace q sv) = labelFields q
   \<and> valueFields (applyTemplateVariables replace q sv) = valueFields q
   \<and> valueFieldTypes (applyTemplateVariables replace q sv) = valueFieldTypes q
   \<and> autoTimeBound (applyTemplateVariables replace q sv) = autoTimeBound q
   \<and> autoTimeSort (applyTemplateVariables replace q sv) = autoTimeSort q
   \<and> schemaInference (applyTemplateVariables replace q sv) = schemaInference q
   \<and> schemaInferenceDepth (applyTemplateVariables replace q sv) = schemaInferenceDepth q
   \<and> MongoDBQuery.more (applyTemplateVariables replace q sv) = MongoDBQuery.more q
   \<and> (\<not> truthy (database q) \<longrightarrow> database (applyTemplateVariables replace q sv) = Some [])
   \<and> (\<not> truthy (collection q) \<longrightarrow> collection (applyTemplateVariables replace q sv) = Some [])
   \<and> (\<not> truthy (aggregation q) \<longrightarrow> aggregation (applyTemplateVariables replace q sv) = Some [])
   \<and> (truthy (database q) \<longrightarrow>
        database (applyTemplateVariables replace q sv) = Some (replace (the (database q)) sv None))
   \<and> (truthy (collection q) \<longrightarrow>
        collection (applyTemplateVariables replace q sv) = Some (replace (the (collection q)) sv None))
   \<and> (truthy (aggregation q) \<longrightarrow>
        aggregation (applyTemplateVariables replace q sv) =
          Some (replace (the (aggregation q)) sv (Some (js ''json''))))"
  by (cases "database q"; cases "collection q"; cases "aggregation q")
    (simp_all add: applyTemplateVariables_at_def applyTemplateVariables_def template_text_def truthy_def)


theorem applyTemplateVariables_frame_witness:
  "0 < length [target \<lparr>vq_database = None, vq_collection = Some (js ''c''), fieldName = js ''f'',
        fieldType = js ''string'', vq_aggregation = Some []\<rparr>]
   \<and> applyTemplateVariables_at (\<lambda>s _ _. js ''<'' @ s @ js ''>'')
        [target \<lparr>vq_database = None, vq_collection = Some (js ''c''), fieldName = js ''f'',
           fieldType = js ''string'', vq_aggregation = Some []\<rparr>] 0 () =
       Some (1, [target \<lparr>vq_database = None, vq_collection = Some (js ''c''), fieldName = js ''f'',
           fieldType = js ''string'', vq_aggregation = Some []\<rparr>,
         target \<lparr>vq_database = Some [], vq_collection = Some (js ''<c>''), fieldName = js ''f'',
           fieldType = js ''string'', vq_aggregation = Some []\<rparr>])
   \<and> \<not> truthy (database (target \<lparr>vq_database = None, vq_collection = Some (js ''c''), fieldName = js ''f'',
        fieldType = js ''string'', vq_aggregation = Some []\<rparr>))
   \<and> truthy (collection (target \<lparr>vq_database = None, vq_collection = Some (js ''c''), fieldName = js ''f'',
        fieldType = js ''string'', vq_aggregation = Some []\<rparr>))
   \<and> \<not> truthy (aggregation (target \<lparr>vq_database = None, vq_collection = Some (js ''c''), fieldName = js ''f'',
        fieldType = js ''string'', vq_aggregation = Some []\<rparr>))
   \<and> applyTemplateVariables (\<lambda>s _ _. js ''<'' @ s @ js ''>'')
        (target \<lparr>vq_database = None, vq_collection = Some (js ''c''), fieldName = js ''f'',
           fieldType = js ''string'', vq_aggregation = Some []\<rparr>) () =
       target \<lparr>vq_database = Some [], vq_collection = Some (js ''<c>''), fieldName = js ''f'',
           fieldType = js ''string'', vq_aggregation = Some []\<rparr>
   \<and> truthy (database (target \<lparr>vq_database = Some (js ''d''), vq_collection = None, fieldName = js ''f'',
        fieldType = js ''string'', vq_aggregation = Some (js ''[]'')\<rparr>))
   \<and> \<not> truthy (collection (target \<lparr>vq_database = Some (js ''d''), vq_collection = None, fieldName = js ''f'',
        fieldType = js ''string'', vq_aggregation = Some (js ''[]'')\<rparr>))
   \<and> truthy (aggregation (target \<lparr>vq_database = Some (js ''d''), vq_collection = None, fieldName = js ''f'',
        fieldType = js ''string'', vq_aggregation = Some (js ''[]'')\<rparr>))
   \<and> applyTemplateVariables (\<lambda>s _ _. js ''<'' @ s @ js ''>'')
        (target \<lparr>vq_database = Some (js ''d''), vq_collection = None, fieldName = js ''f'',
           fieldType = js ''string'', vq_aggregation = Some (js ''[]'')\<rparr>) () =
       target \<lparr>vq_database = Some (js ''<d>''), vq_collection = Some [], fieldName = js ''f'',
           fieldType = js ''string'', vq_aggregation = Some (js ''<[]>'')\<rparr>"
  using applyTemplateVariables_frame [of 0 "[target \<lparr>vq_database = None, vq_collection = Some (js ''c''), fieldName = js ''f'',
        fieldType = js ''string'', vq_aggregation = Some []\<rparr>]" "\<lambda>s _ _. js ''<'' @ s @ js ''>''" "()"
        "target \<lparr>vq_database = None, vq_collection = Some (js ''c''), fieldName = js ''f'',
        fieldType = js ''string'', vq_aggregation = Some []\<rparr>"]
    applyTemplateVariables_frame [of 0 "[]" "\<lambda>s _ _. js ''<'' @ s @ js ''>''" "()"
        "target \<lparr>vq_database = Some (js ''d''), vq_collection = None, fieldName = js ''f'',
        fieldType = js ''string'', vq_aggregation = Some (js ''[]'')\<rparr>"]
  by (simp add: target_def truthy_def applyTemplateVariables_def template_text_def)

section \<open>The claim about the ISO text\<close>

text \<open>
  C4. For every instant \<open>t\<close> a \<open>Date\<close> can hold, the text \<open>{{__time_from:date}}\<close> (and
  the same with the specifier \<open>iso\<close>) expands to the ISO text of \<open>t\<close>, and that text,
  read as a date and time with milliseconds and the designator \<open>Z\<close>, gives \<open>t\<close> back.
\<close>

theorem iso_round_trip:
  assumes "valid_time t"
  shows "replaceCustomFunctions fmt (js ''{{__time_from:date}}'') (Some \<lparr>from = t, to = t'\<rparr>) = Inr (toISOString t)
    \<and> replaceCustomFunctions fmt (js ''{{__time_from:date:iso}}'') (Some \<lparr>from = t, to = t'\<rparr>) = Inr (toISOString t)
    \<and> parse_iso (toISOString t) = Some t"
  using parse_iso_toISOString [OF assms]
  by (simp only: expand_default expand_iso) simp

theorem iso_round_trip_witness:
  "valid_time 1609459200000
   \<and> replaceCustomFunctions (\<lambda>_ _. Inl RangeError) (js ''{{__time_from:date}}'') (Some \<lparr>from = 1609459200000, to = 0\<rparr>) =
       Inr (js ''2021-01-01T00:00:00.000Z'')
   \<and> parse_iso (js ''2021-01-01T00:00:00.000Z'') = Some 1609459200000"
proof -
  have v: "valid_time 1609459200000"
    by (simp add: valid_time_def)
  from iso_round_trip [OF v, of "\<lambda>_ _. Inl RangeError" 0] v show ?thesis
    by (simp only: toISOString_2021)
qed

end
